theory Spec2Isabelle
  imports Complex_Main "HOL-Library.Word"
begin

section \<open>JavaScript numbers and typed arrays\<close>

text \<open>
  A JavaScript \<open>number\<close> is a finite value, one of the two infinities, or NaN. Finite
  values are idealised as reals: the rounding of IEEE doubles and of the 32-bit floats of a
  \<open>Float32Array\<close> is not modelled, and neither is the sign of zero.
\<close>

type_synonym byte = "8 word"

datatype number = Num real | PosInfinity | NegInfinity | NaN

fun js_sub :: "number \<Rightarrow> number \<Rightarrow> number" where
  "js_sub (Num a) (Num b) = Num (a - b)"
| "js_sub NaN _ = NaN"
| "js_sub _ NaN = NaN"
| "js_sub PosInfinity PosInfinity = NaN"
| "js_sub NegInfinity NegInfinity = NaN"
| "js_sub PosInfinity _ = PosInfinity"
| "js_sub NegInfinity _ = NegInfinity"
| "js_sub (Num a) PosInfinity = NegInfinity"
| "js_sub (Num a) NegInfinity = PosInfinity"

fun js_div :: "number \<Rightarrow> number \<Rightarrow> number" where
  "js_div (Num a) (Num b) =
     (if b \<noteq> 0 then Num (a / b)
      else if 0 < a then PosInfinity
      else if a < 0 then NegInfinity
      else NaN)"
| "js_div NaN _ = NaN"
| "js_div _ NaN = NaN"
| "js_div (Num a) _ = Num 0"
| "js_div PosInfinity (Num b) = (if 0 \<le> b then PosInfinity else NegInfinity)"
| "js_div NegInfinity (Num b) = (if 0 \<le> b then NegInfinity else PosInfinity)"
| "js_div _ _ = NaN"

text \<open>\<open>undefined\<close> used as an operand of arithmetic converts to NaN.\<close>

definition to_number :: "real option \<Rightarrow> number" where
  "to_number v = (case v of None \<Rightarrow> NaN | Some x \<Rightarrow> Num x)"

text \<open>Reading an array past its end yields \<open>undefined\<close> (here \<open>None\<close>).\<close>

definition at_index :: "'a list \<Rightarrow> nat \<Rightarrow> 'a option" where
  "at_index xs i = (if i < length xs then Some (xs ! i) else None)"

text \<open>
  A store into a typed array is dropped unless the key is an integer index inside the
  array; the key is a number and need not be an integer.
\<close>

definition typed_store :: "'a list \<Rightarrow> rat \<Rightarrow> 'a \<Rightarrow> 'a list" where
  "typed_store xs k v =
     (if of_int \<lfloor>k\<rfloor> = k \<and> 0 \<le> k \<and> nat \<lfloor>k\<rfloor> < length xs
      then xs[nat \<lfloor>k\<rfloor> := v] else xs)"

section \<open>Tensor preparation: \<open>ModelBase.imageToInput\<close>\<close>

text \<open>
  \<open>ImageRawData\<close> and \<open>ModelData\<close> are both \<open>{data, width, height}\<close>; they differ in
  the element type of \<open>data\<close>.
\<close>

record 'a raster =
  data :: "'a list"
  width :: nat
  height :: nat

type_synonym ImageRawData = "byte raster"
type_synonym ModelData = "number raster"

record ReshapeOptions =
  mean :: "real list option"
  std :: "real list option"

text \<open>The expression \<open>(image.data[i] / 255 - mean[c]) / std[c]\<close>.\<close>

definition normalized :: "byte list \<Rightarrow> nat \<Rightarrow> real list \<Rightarrow> real list \<Rightarrow> nat \<Rightarrow> number" where
  "normalized d i m s c =
     js_div
       (js_sub (js_div (to_number (map_option (\<lambda>b. real (unat b)) (at_index d i))) (Num 255))
               (to_number (at_index m c)))
       (to_number (at_index s c))"

text \<open>
  The loop \<open>for (let i = 0, p = 0; i < image.data.length; i += 4, p++)\<close>.
  \<open>pixelCount\<close> is \<open>image.data.length / 4\<close>, a fraction when the length is not a multiple
  of four.
\<close>

function imageToInput_loop ::
  "byte list \<Rightarrow> real list \<Rightarrow> real list \<Rightarrow> rat \<Rightarrow> nat \<Rightarrow> nat \<Rightarrow> number list \<Rightarrow> number list" where
  "imageToInput_loop d m s pixelCount i p newData =
     (if i < length d then
        (let bOffset = 0;
             gOffset = pixelCount;
             rOffset = pixelCount * 2;
             newData1 = typed_store newData (rOffset + of_nat p) (normalized d i m s 0);
             newData2 = typed_store newData1 (gOffset + of_nat p) (normalized d (i + 1) m s 1);
             newData3 = typed_store newData2 (bOffset + of_nat p) (normalized d (i + 2) m s 2)
         in imageToInput_loop d m s pixelCount (i + 4) (p + 1) newData3)
      else newData)"
  by pat_completeness auto
termination
  by (relation "measure (\<lambda>(d, m, s, pc, i, p, nd). length d - i)") auto

declare imageToInput_loop.simps [simp del]

text \<open>The destructuring defaults \<open>{ mean = [0, 0, 0], std = [1, 1, 1] }\<close>.\<close>

definition mean_or_default :: "ReshapeOptions \<Rightarrow> real list" where
  "mean_or_default opts = (case mean opts of None \<Rightarrow> [0, 0, 0] | Some v \<Rightarrow> v)"

definition std_or_default :: "ReshapeOptions \<Rightarrow> real list" where
  "std_or_default opts = (case std opts of None \<Rightarrow> [1, 1, 1] | Some v \<Rightarrow> v)"

definition imageToInput :: "(byte, 'z) raster_scheme \<Rightarrow> ReshapeOptions \<Rightarrow> ModelData" where
  "imageToInput img opts =
     (let m = mean_or_default opts;
          s = std_or_default opts;
          pixelCount = of_nat (length (data img)) / 4;
          newData = replicate (nat \<lfloor>pixelCount * 3\<rfloor>) (Num 0)
      in \<lparr>data = imageToInput_loop (data img) m s pixelCount 0 0 newData,
          width = width img, height = height img\<rparr>)"

text \<open>The buffer and the parameters of the scenario of the specification.\<close>

definition canonical_buffer :: ImageRawData where
  "canonical_buffer = \<lparr>data = [255, 0, 0, 255, 0, 255, 0, 255], width = 2, height = 1\<rparr>"

definition unit_params :: ReshapeOptions where
  "unit_params = \<lparr>mean = Some [0, 0, 0], std = Some [1, 1, 1]\<rparr>"

section \<open>JavaScript values and the type guard \<open>ImageRaw.isImageRawData\<close>\<close>

text \<open>
  The values an \<open>unknown\<close> input can take, as far as the guard inspects them. An object
  is the list of the properties that \<open>in\<close> finds on it, own or inherited, the first entry
  of a name being the one that is read. Typed arrays are values of their own; they have no
  property called \<open>data\<close>, \<open>width\<close> or \<open>height\<close>, the only names the guard looks up.
\<close>

datatype jsval =
    JSUndefined
  | JSNull
  | JSBoolean bool
  | JSNumber number
  | JSString string
  | JSUint8Array "byte list"
  | JSUint8ClampedArray "byte list"
  | JSFloat32Array "number list"
  | JSObject "(string \<times> jsval) list"

fun typeof :: "jsval \<Rightarrow> string" where
  "typeof JSUndefined = ''undefined''"
| "typeof JSNull = ''object''"
| "typeof (JSBoolean _) = ''boolean''"
| "typeof (JSNumber _) = ''number''"
| "typeof (JSString _) = ''string''"
| "typeof (JSUint8Array _) = ''object''"
| "typeof (JSUint8ClampedArray _) = ''object''"
| "typeof (JSFloat32Array _) = ''object''"
| "typeof (JSObject _) = ''object''"

text \<open>\<open>name in input\<close>, for the names \<open>data\<close>, \<open>width\<close> and \<open>height\<close>.\<close>

fun has_property :: "string \<Rightarrow> jsval \<Rightarrow> bool" where
  "has_property name (JSObject props) = (name \<in> set (map fst props))"
| "has_property name _ = False"

text \<open>\<open>input.name\<close>; a missing property reads as \<open>undefined\<close>.\<close>

fun get_property :: "jsval \<Rightarrow> string \<Rightarrow> jsval" where
  "get_property (JSObject props) name =
     (case map_of props name of None \<Rightarrow> JSUndefined | Some v \<Rightarrow> v)"
| "get_property _ name = JSUndefined"

fun instanceof_Uint8Array :: "jsval \<Rightarrow> bool" where
  "instanceof_Uint8Array (JSUint8Array _) = True"
| "instanceof_Uint8Array _ = False"

fun instanceof_Uint8ClampedArray :: "jsval \<Rightarrow> bool" where
  "instanceof_Uint8ClampedArray (JSUint8ClampedArray _) = True"
| "instanceof_Uint8ClampedArray _ = False"

text \<open>The guard, the same in both copies of \<open>ImageRaw\<close>.\<close>

definition isImageRawData :: "jsval \<Rightarrow> bool" where
  "isImageRawData input \<longleftrightarrow>
     typeof input = ''object'' \<and>
     input \<noteq> JSNull \<and>
     has_property ''data'' input \<and>
     has_property ''width'' input \<and>
     has_property ''height'' input \<and>
     (instanceof_Uint8Array (get_property input ''data'')
      \<or> instanceof_Uint8ClampedArray (get_property input ''data''))"

text \<open>
  The recognition test in the words of the specification, for comparison with the guard:
  ``has numeric width, numeric height, and a byte array field of the two accepted element
  types''.
\<close>

definition recognition_test_of_spec :: "jsval \<Rightarrow> bool" where
  "recognition_test_of_spec input \<longleftrightarrow>
     typeof (get_property input ''width'') = ''number'' \<and>
     typeof (get_property input ''height'') = ''number'' \<and>
     (instanceof_Uint8Array (get_property input ''data'')
      \<or> instanceof_Uint8ClampedArray (get_property input ''data''))"

text \<open>An object with a byte array, a string for its width and \<open>null\<close> for its height.\<close>

definition mistyped_size_input :: jsval where
  "mistyped_size_input =
     JSObject [(''data'', JSUint8Array [0, 0, 0, 255]), (''width'', JSString ''1''),
               (''height'', JSNull)]"

section \<open>More of JavaScript's arithmetic\<close>



fun truthy :: "number \<Rightarrow> bool" where
  "truthy (Num x) = (x \<noteq> 0)"
| "truthy NaN = False"
| "truthy _ = True"

text \<open>
  An optional numeric argument is \<open>None\<close> when it is \<open>undefined\<close>. \<open>a || b\<close> yields \<open>b\<close>
  when \<open>a\<close> is \<open>undefined\<close>, zero or NaN; \<open>undefined\<close> as an operand of arithmetic is NaN.
\<close>

definition or_else :: "number option \<Rightarrow> number \<Rightarrow> number" where
  "or_else a b = (case a of None \<Rightarrow> b | Some v \<Rightarrow> if truthy v then v else b)"


section \<open>The browser: environment, canvases, exceptions\<close>

text \<open>
  An exception is either an \<open>Error\<close> that the code under study constructs, with its
  message, or an exception raised inside the browser (a \<open>DOMException\<close>, a \<open>TypeError\<close>).
\<close>

datatype exn = Error string | PlatformException string

text \<open>The globals whose presence the module tests when it is loaded.\<close>

record Env =
  has_window :: bool
  has_self :: bool
  has_document :: bool
  has_OffscreenCanvas :: bool
  has_Image :: bool
  has_createImageBitmap :: bool


definition HAS_OFFSCREEN_CANVAS :: "Env \<Rightarrow> bool" where
  "HAS_OFFSCREEN_CANVAS env = has_OffscreenCanvas env"

definition HAS_DOCUMENT :: "Env \<Rightarrow> bool" where
  "HAS_DOCUMENT env = has_document env"

definition HAS_IMAGE :: "Env \<Rightarrow> bool" where
  "HAS_IMAGE env = has_Image env"


text \<open>
  A canvas has an identity, a kind, a size and its pixels (RGBA, four bytes a pixel;
  \<open>None\<close> for a canvas that is cleared, every byte 0). Assigning a size clears the
  pixels. An \<open>OffscreenCanvas\<close> takes its sizes as \<open>[EnforceRange] unsigned long long\<close>:
  a value that is not finite or not in range raises a \<open>TypeError\<close>, a fraction is
  truncated. A canvas element takes them as \<open>unsigned long\<close>: the value is truncated and
  reduced modulo \<open>2^32\<close>, NaN and the infinities become 0, and a result above \<open>2^31 - 1\<close>
  is replaced by the default size.
\<close>

datatype canvas_kind = OffscreenCanvas | HTMLCanvasElement

record Canvas =
  canvas_id :: nat
  canvas_kind :: canvas_kind
  canvas_width :: nat
  canvas_height :: nat
  canvas_pixels :: "byte list option"

definition truncated :: "real \<Rightarrow> int" where
  "truncated x = (if x < 0 then - \<lfloor>- x\<rfloor> else \<lfloor>x\<rfloor>)"

fun enforce_range :: "number \<Rightarrow> nat option" where
  "enforce_range (Num x) =
     (if 0 \<le> truncated x \<and> truncated x \<le> 2 ^ 53 - 1 then Some (nat (truncated x)) else None)"
| "enforce_range _ = None"

fun to_unsigned_long :: "number \<Rightarrow> int" where
  "to_unsigned_long (Num x) = truncated x mod 2 ^ 32"
| "to_unsigned_long _ = 0"

definition element_size :: "nat \<Rightarrow> number \<Rightarrow> nat" where
  "element_size dflt v =
     (if to_unsigned_long v > 2147483647 then dflt else nat (to_unsigned_long v))"

definition blank :: "nat \<Rightarrow> nat \<Rightarrow> byte list" where
  "blank w h = replicate (4 * w * h) 0"

definition pixels_of :: "Canvas \<Rightarrow> byte list" where
  "pixels_of canvas =
     (case canvas_pixels canvas of
        None \<Rightarrow> blank (canvas_width canvas) (canvas_height canvas)
      | Some pixels \<Rightarrow> pixels)"

definition set_canvas_width :: "Canvas \<Rightarrow> number \<Rightarrow> exn + Canvas" where
  "set_canvas_width canvas v =
     (case canvas_kind canvas of
        OffscreenCanvas \<Rightarrow>
          (case enforce_range v of
             None \<Rightarrow> Inl (PlatformException ''TypeError'')
           | Some w \<Rightarrow> Inr (canvas\<lparr>canvas_width := w, canvas_pixels := None\<rparr>))
      | HTMLCanvasElement \<Rightarrow>
          Inr (canvas\<lparr>canvas_width := element_size 300 v, canvas_pixels := None\<rparr>))"

definition set_canvas_height :: "Canvas \<Rightarrow> number \<Rightarrow> exn + Canvas" where
  "set_canvas_height canvas v =
     (case canvas_kind canvas of
        OffscreenCanvas \<Rightarrow>
          (case enforce_range v of
             None \<Rightarrow> Inl (PlatformException ''TypeError'')
           | Some h \<Rightarrow> Inr (canvas\<lparr>canvas_height := h, canvas_pixels := None\<rparr>))
      | HTMLCanvasElement \<Rightarrow>
          Inr (canvas\<lparr>canvas_height := element_size 150 v, canvas_pixels := None\<rparr>))"

text \<open>The other sources of pixels: a decoded bitmap, an image element, a video element.\<close>

record ImageBitmap =
  bitmap_width :: nat
  bitmap_height :: nat
  bitmap_pixels :: "byte list"

record HTMLImageElement =
  img_complete :: bool
  img_naturalWidth :: nat
  img_naturalHeight :: nat
  img_width :: nat
  img_height :: nat
  img_pixels :: "byte list"

record HTMLVideoElement =
  video_readyState :: nat
  video_videoWidth :: nat
  video_videoHeight :: nat
  video_width :: nat
  video_height :: nat
  video_pixels :: "byte list"

datatype CanvasImageSource =
    BitmapSource ImageBitmap
  | ImageSource HTMLImageElement
  | VideoSource HTMLVideoElement
  | CanvasSource Canvas



text \<open>
  What the browser answers where the code cannot determine it: the context a canvas hands
  out (\<open>None\<close> for \<open>null\<close>), the pixels a canvas holds after a source is drawn on it or the
  exception the drawing raises, whether reading pixels back or closing a bitmap raises, and
  how the promises of \<open>decode\<close> and \<open>createImageBitmap\<close> settle; \<open>Inl\<close> carries the name of
  the exception.
\<close>

record Platform =
  getContext :: "Canvas \<Rightarrow> nat option"
  drawImage :: "CanvasImageSource \<Rightarrow> Canvas \<Rightarrow> string + byte list"
  getImageData_raises :: "Canvas \<Rightarrow> string option"
  close_raises :: "ImageBitmap \<Rightarrow> string option"
  decode :: "HTMLImageElement \<Rightarrow> string + HTMLImageElement"
  createImageBitmap_with_options :: "CanvasImageSource \<Rightarrow> string + ImageBitmap"
  createImageBitmap_plain :: "CanvasImageSource \<Rightarrow> string + ImageBitmap"

text \<open>
  The state that outlives a call: the module's \<open>contextCache\<close>, a \<open>WeakMap\<close> keyed by the
  identity of the canvas, and the supply of fresh canvas identities. A log of the uses of
  the bitmap handle and of the image element is kept beside it, to count them.
\<close>

datatype effect = ReadWidth | ReadHeight | DrawBitmap | CloseBitmap | DecodeImage

record World =
  contextCache :: "nat \<Rightarrow> nat option"
  next_canvas :: nat
  effects :: "effect list"

type_synonym 'a action = "World \<Rightarrow> (exn + 'a) \<times> World"

definition succeed :: "'a \<Rightarrow> 'a action" where
  "succeed x \<sigma> = (Inr x, \<sigma>)"

definition throw :: "exn \<Rightarrow> 'a action" where
  "throw e \<sigma> = (Inl e, \<sigma>)"

definition and_then :: "'a action \<Rightarrow> ('a \<Rightarrow> 'b action) \<Rightarrow> 'b action" where
  "and_then f g \<sigma> = (case f \<sigma> of (Inl e, \<sigma>') \<Rightarrow> (Inl e, \<sigma>') | (Inr x, \<sigma>') \<Rightarrow> g x \<sigma>')"

text \<open>A result of the browser: a value, or an exception raised inside the browser.\<close>

definition from_platform :: "string + 'a \<Rightarrow> 'a action" where
  "from_platform r = (case r of Inl name \<Rightarrow> throw (PlatformException name) | Inr x \<Rightarrow> succeed x)"

definition raise_if :: "string option \<Rightarrow> unit action" where
  "raise_if r = (case r of Some name \<Rightarrow> throw (PlatformException name) | None \<Rightarrow> succeed ())"

definition from_setter :: "exn + 'a \<Rightarrow> 'a action" where
  "from_setter r = (case r of Inl e \<Rightarrow> throw e | Inr x \<Rightarrow> succeed x)"

text \<open>\<open>try { body } finally { cleanup }\<close>, \<open>try { body } catch { }\<close> and
  \<open>try { return body } catch { return fallback }\<close>.\<close>

definition try_finally :: "'a action \<Rightarrow> unit action \<Rightarrow> 'a action" where
  "try_finally body cleanup \<sigma> =
     (case body \<sigma> of
        (r, \<sigma>') \<Rightarrow> (case cleanup \<sigma>' of (Inl e, \<sigma>'') \<Rightarrow> (Inl e, \<sigma>'') | (Inr _, \<sigma>'') \<Rightarrow> (r, \<sigma>'')))"

definition try_ignore :: "unit action \<Rightarrow> unit action" where
  "try_ignore body \<sigma> = (case body \<sigma> of (_, \<sigma>') \<Rightarrow> (Inr (), \<sigma>'))"


definition logged :: "effect \<Rightarrow> unit action" where
  "logged ev \<sigma> = (Inr (), \<sigma>\<lparr>effects := effects \<sigma> @ [ev]\<rparr>)"

section \<open>The canvas helpers of the worker-aware \<open>ImageRaw\<close>\<close>

definition fresh_canvas :: "canvas_kind \<Rightarrow> nat \<Rightarrow> nat \<Rightarrow> Canvas action" where
  "fresh_canvas kind w h \<sigma> =
     (Inr \<lparr>canvas_id = next_canvas \<sigma>, canvas_kind = kind, canvas_width = w, canvas_height = h,
           canvas_pixels = None\<rparr>,
      \<sigma>\<lparr>next_canvas := Suc (next_canvas \<sigma>)\<rparr>)"

text \<open>\<open>createCanvas\<close>: an \<open>OffscreenCanvas\<close> when there is one, else a canvas element
  (created 300 by 150, then sized), else an error.\<close>

definition createCanvas :: "Env \<Rightarrow> number \<Rightarrow> number \<Rightarrow> Canvas action" where
  "createCanvas env w h =
     (if HAS_OFFSCREEN_CANVAS env then
        (case enforce_range w of
           None \<Rightarrow> throw (PlatformException ''TypeError'')
         | Some cw \<Rightarrow>
             (case enforce_range h of
                None \<Rightarrow> throw (PlatformException ''TypeError'')
              | Some ch \<Rightarrow> fresh_canvas OffscreenCanvas cw ch))
      else if HAS_DOCUMENT env then
        and_then (fresh_canvas HTMLCanvasElement 300 150) (\<lambda>canvas.
        and_then (from_setter (set_canvas_width canvas w)) (\<lambda>canvas.
        from_setter (set_canvas_height canvas h)))
      else throw (Error ''No canvas support available. Neither OffscreenCanvas nor document is available.''))"

text \<open>\<open>getContext2D\<close>: the cached context if there is one, else the context the canvas
  hands out, which is cached unless it is \<open>null\<close>.\<close>

definition getContext2D :: "Platform \<Rightarrow> Canvas \<Rightarrow> nat option action" where
  "getContext2D pf canvas \<sigma> =
     (case contextCache \<sigma> (canvas_id canvas) of
        Some cached \<Rightarrow> (Inr (Some cached), \<sigma>)
      | None \<Rightarrow>
          (case getContext pf canvas of
             Some ctx \<Rightarrow>
               (Inr (Some ctx), \<sigma>\<lparr>contextCache := (contextCache \<sigma>)(canvas_id canvas \<mapsto> ctx)\<rparr>)
           | None \<Rightarrow> (Inr None, \<sigma>)))"

text \<open>\<open>ctx.getImageData(0, 0, canvas.width, canvas.height)\<close>; the browser raises
  \<open>IndexSizeError\<close> for an empty rectangle.\<close>

definition ctx_getImageData :: "Platform \<Rightarrow> Canvas \<Rightarrow> byte raster action" where
  "ctx_getImageData pf canvas =
     (if canvas_width canvas = 0 \<or> canvas_height canvas = 0
      then throw (PlatformException ''IndexSizeError'')
      else and_then (raise_if (getImageData_raises pf canvas)) (\<lambda>_.
           succeed \<lparr>data = pixels_of canvas, width = canvas_width canvas,
                    height = canvas_height canvas\<rparr>))"



definition canvasPutImageData ::
  "Platform \<Rightarrow> Canvas \<Rightarrow> byte raster \<Rightarrow> number option \<Rightarrow> number option \<Rightarrow> Canvas action" where
  "canvasPutImageData pf canvas imageData w h =
     and_then (from_setter (set_canvas_width canvas (or_else w (Num (real (width imageData))))))
       (\<lambda>canvas.
     and_then (from_setter (set_canvas_height canvas (or_else h (Num (real (height imageData))))))
       (\<lambda>canvas.
     and_then (getContext2D pf canvas) (\<lambda>ctx.
       case ctx of
         None \<Rightarrow> throw (Error ''Failed to get 2D context'')
       | Some _ \<Rightarrow> succeed (canvas\<lparr>canvas_pixels := Some (data imageData)\<rparr>))))"

text \<open>\<open>new ImageData(data, width, height)\<close>, with the checks the browser makes.\<close>

definition new_ImageData :: "byte list \<Rightarrow> nat \<Rightarrow> nat \<Rightarrow> byte raster action" where
  "new_ImageData d w h =
     (if length d = 0 \<or> length d mod 4 \<noteq> 0 then throw (PlatformException ''InvalidStateError'')
      else if w = 0 \<or> (length d div 4) mod w \<noteq> 0 \<or> (length d div 4) div w \<noteq> h
      then throw (PlatformException ''IndexSizeError'')
      else succeed \<lparr>data = d, width = w, height = h\<rparr>)"

section \<open>The worker-aware \<open>ImageRaw\<close>\<close>

text \<open>
  Modelled from the spec: the base class \<open>ImageRawBase\<close> is not among the sources; its
  constructor is taken to store the \<open>data\<close>, \<open>width\<close> and \<open>height\<close> it is given, the
  fields of the pixel buffer of the specification. The private fields \<open>#canvas\<close> and
  \<open>#imageData\<close> are added to them. The data is copied; that a \<open>Uint8ClampedArray\<close> argument
  shares its buffer with the new view is not modelled.
\<close>

record ImageRaw = "byte raster" +
  priv_canvas :: Canvas
  priv_imageData :: "byte raster"

definition new_ImageRaw :: "Env \<Rightarrow> Platform \<Rightarrow> byte raster \<Rightarrow> ImageRaw action" where
  "new_ImageRaw env pf input =
     (let newData = data input in
      and_then (createCanvas env (Num (real (width input))) (Num (real (height input))))
        (\<lambda>canvas.
      and_then (new_ImageData newData (width input) (height input)) (\<lambda>imageData.
      and_then (canvasPutImageData pf canvas imageData None None) (\<lambda>canvas.
      succeed \<lparr>data = newData, width = width input, height = height input,
               priv_canvas = canvas, priv_imageData = imageData\<rparr>))))"

text \<open>The uses of a bitmap handle, each entered in the log.\<close>

definition read_width :: "ImageBitmap \<Rightarrow> nat action" where
  "read_width bitmap = and_then (logged ReadWidth) (\<lambda>_. succeed (bitmap_width bitmap))"

definition read_height :: "ImageBitmap \<Rightarrow> nat action" where
  "read_height bitmap = and_then (logged ReadHeight) (\<lambda>_. succeed (bitmap_height bitmap))"

definition close :: "Platform \<Rightarrow> ImageBitmap \<Rightarrow> unit action" where
  "close pf bitmap = and_then (logged CloseBitmap) (\<lambda>_. raise_if (close_raises pf bitmap))"

definition ctx_drawImage_bitmap :: "Platform \<Rightarrow> ImageBitmap \<Rightarrow> Canvas \<Rightarrow> Canvas action" where
  "ctx_drawImage_bitmap pf bitmap canvas =
     and_then (logged DrawBitmap) (\<lambda>_.
     and_then (from_platform (drawImage pf (BitmapSource bitmap) canvas)) (\<lambda>pixels.
     succeed (canvas\<lparr>canvas_pixels := Some pixels\<rparr>)))"

text \<open>\<open>bitmap.width === 0 || bitmap.height === 0\<close>: the height is read only when the
  width is not zero.\<close>

definition has_zero_dimension :: "ImageBitmap \<Rightarrow> bool action" where
  "has_zero_dimension bitmap =
     and_then (read_width bitmap) (\<lambda>w.
       if w = 0 then succeed True
       else and_then (read_height bitmap) (\<lambda>h. succeed (h = 0)))"

definition fromImageBitmap :: "Env \<Rightarrow> Platform \<Rightarrow> ImageBitmap \<Rightarrow> ImageRaw action" where
  "fromImageBitmap env pf bitmap =
     and_then (has_zero_dimension bitmap) (\<lambda>invalid.
       if invalid then
         throw (Error ''Invalid ImageBitmap: dimensions are zero (bitmap may be closed or neutered)'')
       else
         and_then (read_width bitmap) (\<lambda>w.
         and_then (read_height bitmap) (\<lambda>h.
         and_then (createCanvas env (Num (real w)) (Num (real h))) (\<lambda>canvas.
         and_then (getContext2D pf canvas) (\<lambda>ctx.
           case ctx of
             None \<Rightarrow>
               and_then (try_ignore (close pf bitmap)) (\<lambda>_.
               throw (Error ''Failed to create canvas 2D context''))
           | Some _ \<Rightarrow>
               try_finally
                 (and_then (ctx_drawImage_bitmap pf bitmap canvas) (\<lambda>canvas.
                  and_then (ctx_getImageData pf canvas) (\<lambda>imageData.
                  new_ImageRaw env pf
                    \<lparr>data = data imageData, width = width imageData,
                     height = height imageData\<rparr>)))
                 (try_ignore (close pf bitmap)))))))"









section \<open>The document-only \<open>ImageRaw\<close>\<close>

text \<open>
  The second copy of the class creates every canvas with \<open>document.createElement\<close>, asks
  the canvas itself for its context and asserts with \<open>!\<close> that the context is not \<open>null\<close>;
  a method call on \<open>null\<close> raises a \<open>TypeError\<close>.
\<close>

definition createElement_canvas :: "Canvas action" where
  "createElement_canvas = fresh_canvas HTMLCanvasElement 300 150"


definition canvasPutImageData_dom ::
  "Platform \<Rightarrow> Canvas \<Rightarrow> byte raster \<Rightarrow> number option \<Rightarrow> number option \<Rightarrow> Canvas action" where
  "canvasPutImageData_dom pf canvas imageData w h =
     (case getContext pf canvas of
        None \<Rightarrow>
          and_then (from_setter (set_canvas_width canvas (or_else w (Num (real (width imageData))))))
            (\<lambda>canvas.
          and_then (from_setter (set_canvas_height canvas (or_else h (Num (real (height imageData))))))
            (\<lambda>canvas.
          throw (PlatformException ''TypeError'')))
      | Some _ \<Rightarrow>
          and_then (from_setter (set_canvas_width canvas (or_else w (Num (real (width imageData))))))
            (\<lambda>canvas.
          and_then (from_setter (set_canvas_height canvas (or_else h (Num (real (height imageData))))))
            (\<lambda>canvas.
          succeed (canvas\<lparr>canvas_pixels := Some (data imageData)\<rparr>))))"


definition new_ImageRaw_dom :: "Platform \<Rightarrow> byte raster \<Rightarrow> ImageRaw action" where
  "new_ImageRaw_dom pf input =
     (let newData = data input in
      and_then createElement_canvas (\<lambda>canvas.
      and_then (new_ImageData newData (width input) (height input)) (\<lambda>imageData.
      and_then (canvasPutImageData_dom pf canvas imageData None None) (\<lambda>canvas.
      succeed \<lparr>data = newData, width = width input, height = height input,
               priv_canvas = canvas, priv_imageData = imageData\<rparr>))))"

definition fromImageBitmap_dom :: "Platform \<Rightarrow> ImageBitmap \<Rightarrow> ImageRaw action" where
  "fromImageBitmap_dom pf bitmap =
     and_then (has_zero_dimension bitmap) (\<lambda>invalid.
       if invalid then
         throw (Error ''Invalid ImageBitmap: dimensions are zero (bitmap may be closed or neutered)'')
       else
         and_then createElement_canvas (\<lambda>canvas.
         and_then (read_width bitmap) (\<lambda>w.
         and_then (from_setter (set_canvas_width canvas (Num (real w)))) (\<lambda>canvas.
         and_then (read_height bitmap) (\<lambda>h.
         and_then (from_setter (set_canvas_height canvas (Num (real h)))) (\<lambda>canvas.
           case getContext pf canvas of
             None \<Rightarrow>
               and_then (try_ignore (close pf bitmap)) (\<lambda>_.
               throw (Error ''Failed to create canvas 2D context''))
           | Some _ \<Rightarrow>
               try_finally
                 (and_then (ctx_drawImage_bitmap pf bitmap canvas) (\<lambda>canvas.
                  and_then (ctx_getImageData pf canvas) (\<lambda>imageData.
                  new_ImageRaw_dom pf
                    \<lparr>data = data imageData, width = width imageData,
                     height = height imageData\<rparr>)))
                 (try_ignore (close pf bitmap))))))))"





section \<open>A browser in which every operation succeeds\<close>

text \<open>
  A main-thread environment with every capability, and a platform in which each canvas
  hands out a context, drawing fills the canvas, no operation raises, \<open>decode\<close> completes
  an image of 4 by 2 pixels and \<open>createImageBitmap\<close> yields a bitmap of the intrinsic size
  of its source.
\<close>

definition main_thread :: Env where
  "main_thread = \<lparr>has_window = True, has_self = True, has_document = True,
                  has_OffscreenCanvas = True, has_Image = True, has_createImageBitmap = True\<rparr>"

definition document_only :: Env where
  "document_only = \<lparr>has_window = True, has_self = True, has_document = True,
                    has_OffscreenCanvas = False, has_Image = True,
                    has_createImageBitmap = False\<rparr>"

fun intrinsic_bitmap :: "CanvasImageSource \<Rightarrow> ImageBitmap" where
  "intrinsic_bitmap (BitmapSource b) = b"
| "intrinsic_bitmap (ImageSource i) =
     \<lparr>bitmap_width = img_naturalWidth i, bitmap_height = img_naturalHeight i,
      bitmap_pixels = img_pixels i\<rparr>"
| "intrinsic_bitmap (VideoSource v) =
     \<lparr>bitmap_width = video_videoWidth v, bitmap_height = video_videoHeight v,
      bitmap_pixels = video_pixels v\<rparr>"
| "intrinsic_bitmap (CanvasSource c) =
     \<lparr>bitmap_width = canvas_width c, bitmap_height = canvas_height c,
      bitmap_pixels = pixels_of c\<rparr>"

definition obliging :: Platform where
  "obliging =
     \<lparr>getContext = (\<lambda>canvas. Some (canvas_id canvas)),
      drawImage = (\<lambda>source canvas.
         Inr (replicate (4 * canvas_width canvas * canvas_height canvas) 255)),
      getImageData_raises = (\<lambda>canvas. None),
      close_raises = (\<lambda>bitmap. None),
      decode = (\<lambda>img. Inr (img\<lparr>img_complete := True, img_naturalWidth := 4,
                                  img_naturalHeight := 2\<rparr>)),
      createImageBitmap_with_options = (\<lambda>source. Inr (intrinsic_bitmap source)),
      createImageBitmap_plain = (\<lambda>source. Inr (intrinsic_bitmap source))\<rparr>"

definition initial_world :: World where
  "initial_world = \<lparr>contextCache = (\<lambda>_. None), next_canvas = 0, effects = []\<rparr>"

definition two_by_one :: ImageBitmap where
  "two_by_one = \<lparr>bitmap_width = 2, bitmap_height = 1,
                 bitmap_pixels = [255, 0, 0, 255, 0, 255, 0, 255]\<rparr>"

definition closed_bitmap :: ImageBitmap where
  "closed_bitmap = \<lparr>bitmap_width = 0, bitmap_height = 0, bitmap_pixels = []\<rparr>"



section \<open>Calls in sequence\<close>

text \<open>
  A run of calls of \<open>getContext2D\<close>, each on some canvas and with whatever the browser
  would answer at that moment; the result of each call is collected (\<open>None\<close> for \<open>null\<close>).
\<close>

fun getContext2D_calls :: "(Platform \<times> Canvas) list \<Rightarrow> World \<Rightarrow> nat option list \<times> World" where
  "getContext2D_calls [] \<sigma> = ([], \<sigma>)"
| "getContext2D_calls ((pf, canvas) # calls) \<sigma> =
     (case getContext2D pf canvas \<sigma> of
        (r, \<sigma>') \<Rightarrow>
          (case getContext2D_calls calls \<sigma>' of
             (rs, \<sigma>'') \<Rightarrow> ((case r of Inl _ \<Rightarrow> None | Inr ctx \<Rightarrow> ctx) # rs, \<sigma>'')))"

text \<open>A canvas, and a platform that hands out a different context from \<open>obliging\<close>.\<close>

definition some_canvas :: Canvas where
  "some_canvas = \<lparr>canvas_id = 7, canvas_kind = OffscreenCanvas, canvas_width = 2,
                  canvas_height = 1, canvas_pixels = None\<rparr>"

definition fickle :: Platform where
  "fickle = obliging\<lparr>getContext := (\<lambda>canvas. Some (canvas_id canvas + 100))\<rparr>"

section \<open>Counting the uses of a handle\<close>

text \<open>
  The uses that an action adds to the log, and the actions that add the same uses
  whatever the state and whether they return or raise.
\<close>

definition uses_during :: "'a action \<Rightarrow> World \<Rightarrow> effect list" where
  "uses_during f \<sigma> = drop (length (effects \<sigma>)) (effects (snd (f \<sigma>)))"

definition appends :: "'a action \<Rightarrow> effect list \<Rightarrow> bool" where
  "appends f es \<longleftrightarrow> (\<forall>\<sigma>. effects (snd (f \<sigma>)) = effects \<sigma> @ es)"

text \<open>A canvas of the given size can be created: \<open>createCanvas\<close> does not raise.\<close>

definition canvas_available :: "Env \<Rightarrow> nat \<Rightarrow> nat \<Rightarrow> bool" where
  "canvas_available env w h \<longleftrightarrow>
     (if HAS_OFFSCREEN_CANVAS env then w < 2 ^ 53 \<and> h < 2 ^ 53 else HAS_DOCUMENT env)"

section \<open>Sample images\<close>




section \<open>Exceptions an action cannot raise\<close>





section \<open>The call serializer: \<open>Ocr.detect\<close>\<close>

text \<open>
  JavaScript runs one job at a time; an \<open>async\<close> function runs until its next \<open>await\<close>
  and is resumed by a later job, once the awaited promise has settled. A call of \<open>detect\<close>
  therefore passes through these phases: suspended at \<open>await currentMutex\<close>; inside
  \<open>#detectInternal\<close>, waiting for the detection stage and then for the recognition stage;
  \<open>#detectInternal\<close> settled, the \<open>finally\<close> block still to run; returned.

  The two stages, \<open>this.#detection.run\<close> and \<open>this.#recognition.run\<close>, are not among the
  sources: that a stage settles, and whether it succeeds or fails, is given from outside.

  Promises are numbered in the order of their creation; number 0 is the
  \<open>Promise.resolve()\<close> that \<open>#mutex\<close> holds at first. The promises of the chain are only
  ever resolved, never rejected: \<open>new Promise((resolve) => ...)\<close> keeps \<open>resolve\<close> alone.
\<close>

datatype outcome = Fulfilled | Rejected

datatype phase =
    AwaitingMutex
  | InDetection
  | InRecognition
  | Leaving outcome
  | Returned outcome

record detect_call =
  currentMutex :: nat
  releaseMutex :: nat
  phase :: phase

record Ocr =
  mutex :: nat
  promises :: nat
  fulfilled :: "nat list"
  detect_calls :: "detect_call list"

text \<open>The session as the constructor leaves it.\<close>

definition new_Ocr :: Ocr where
  "new_Ocr = \<lparr>mutex = 0, promises = 1, fulfilled = [0], detect_calls = []\<rparr>"

text \<open>
  The jobs. \<open>Detect\<close>: a caller invokes \<open>detect\<close>, which captures \<open>#mutex\<close>, stores a new
  promise in it and suspends. \<open>Continue k\<close>: call \<open>k\<close> is resumed after
  \<open>await currentMutex\<close> and enters \<open>#detectInternal\<close>. \<open>DetectionSettles\<close> and
  \<open>RecognitionSettles\<close>: the stage that call \<open>k\<close> awaits has succeeded or failed; a failure
  ends \<open>#detectInternal\<close>. \<open>Finally k\<close>: the \<open>finally\<close> block of call \<open>k\<close> runs
  \<open>releaseMutex()\<close> and the call returns or throws. A job that is not enabled in a state
  has no successor (\<open>None\<close>).
\<close>

datatype job =
    Detect
  | Continue nat
  | DetectionSettles nat outcome
  | RecognitionSettles nat outcome
  | Finally nat

definition phase_of :: "Ocr \<Rightarrow> nat \<Rightarrow> phase option" where
  "phase_of s k = (if k < length (detect_calls s) then Some (phase (detect_calls s ! k)) else None)"

definition set_phase :: "nat \<Rightarrow> phase \<Rightarrow> Ocr \<Rightarrow> Ocr" where
  "set_phase k p s =
     s\<lparr>detect_calls := (detect_calls s)[k := (detect_calls s ! k)\<lparr>phase := p\<rparr>]\<rparr>"

fun step :: "job \<Rightarrow> Ocr \<Rightarrow> Ocr option" where
  "step Detect s =
     Some (s\<lparr>mutex := promises s,
             promises := Suc (promises s),
             detect_calls := detect_calls s @
               [\<lparr>currentMutex = mutex s, releaseMutex = promises s, phase = AwaitingMutex\<rparr>]\<rparr>)"
| "step (Continue k) s =
     (if phase_of s k = Some AwaitingMutex
         \<and> currentMutex (detect_calls s ! k) \<in> set (fulfilled s)
      then Some (set_phase k InDetection s) else None)"
| "step (DetectionSettles k result) s =
     (if phase_of s k = Some InDetection
      then Some (set_phase k (case result of Fulfilled \<Rightarrow> InRecognition
                                            | Rejected \<Rightarrow> Leaving Rejected) s)
      else None)"
| "step (RecognitionSettles k result) s =
     (if phase_of s k = Some InRecognition
      then Some (set_phase k (Leaving result) s) else None)"
| "step (Finally k) s =
     (case phase_of s k of
        Some (Leaving result) \<Rightarrow>
          Some (set_phase k (Returned result)
                  (s\<lparr>fulfilled := releaseMutex (detect_calls s ! k) # fulfilled s\<rparr>))
      | _ \<Rightarrow> None)"

fun run :: "job list \<Rightarrow> Ocr \<Rightarrow> Ocr option" where
  "run [] s = Some s"
| "run (j # js) s = (case step j s of None \<Rightarrow> None | Some s' \<Rightarrow> run js s')"

text \<open>A call executes the body of \<open>#detectInternal\<close>; it has entered it; it has returned.\<close>

fun executing :: "phase \<Rightarrow> bool" where
  "executing InDetection = True"
| "executing InRecognition = True"
| "executing _ = False"

fun started :: "phase \<Rightarrow> bool" where
  "started AwaitingMutex = False"
| "started _ = True"

fun returned :: "phase \<Rightarrow> bool" where
  "returned (Returned _) = True"
| "returned _ = False"

text \<open>The calls that enter \<open>#detectInternal\<close> during a run, in the order in which they do.\<close>

fun entries :: "job list \<Rightarrow> nat list" where
  "entries [] = []"
| "entries (Continue k # js) = k # entries js"
| "entries (_ # js) = entries js"

text \<open>
  The jobs that take a call from its phase to a successful return, and the run that does
  so for every call of a session in turn; the phase that a call has after that run.
\<close>

fun finish_call :: "nat \<Rightarrow> phase \<Rightarrow> job list" where
  "finish_call k AwaitingMutex =
     [Continue k, DetectionSettles k Fulfilled, RecognitionSettles k Fulfilled, Finally k]"
| "finish_call k InDetection =
     [DetectionSettles k Fulfilled, RecognitionSettles k Fulfilled, Finally k]"
| "finish_call k InRecognition = [RecognitionSettles k Fulfilled, Finally k]"
| "finish_call k (Leaving _) = [Finally k]"
| "finish_call k (Returned _) = []"

definition finish_from :: "nat \<Rightarrow> Ocr \<Rightarrow> job list" where
  "finish_from i s =
     concat (map (\<lambda>k. finish_call k (phase (detect_calls s ! k))) [i..<length (detect_calls s)])"

fun final_phase :: "phase \<Rightarrow> phase" where
  "final_phase (Leaving result) = Returned result"
| "final_phase (Returned result) = Returned result"
| "final_phase _ = Returned Fulfilled"

text \<open>
  The scenario of the specification: two calls are queued, the first fails in its
  detection stage, the second then runs and succeeds.
\<close>

definition failing_then_valid :: "job list" where
  "failing_then_valid =
     [Detect, Detect, Continue 0, DetectionSettles 0 Rejected, Finally 0,
      Continue 1, DetectionSettles 1 Fulfilled, RecognitionSettles 1 Fulfilled, Finally 1]"

text \<open>
  What holds of every session that jobs can produce: \<open>#mutex\<close> is the newest promise, call
  \<open>k\<close> awaits promise \<open>k\<close> and releases promise \<open>k + 1\<close>, the promises fulfilled are the
  first one and those of the calls that have returned, and a call that has entered
  \<open>#detectInternal\<close> found its awaited promise fulfilled.
\<close>

definition well_formed :: "Ocr \<Rightarrow> bool" where
  "well_formed s \<longleftrightarrow>
     mutex s = length (detect_calls s)
     \<and> promises s = Suc (length (detect_calls s))
     \<and> (\<forall>k < length (detect_calls s).
           currentMutex (detect_calls s ! k) = k \<and> releaseMutex (detect_calls s ! k) = Suc k)
     \<and> set (fulfilled s) =
          insert 0 {Suc k | k. k < length (detect_calls s) \<and> returned (phase (detect_calls s ! k))}
     \<and> (\<forall>k < length (detect_calls s).
           started (phase (detect_calls s ! k)) \<longrightarrow> k \<in> set (fulfilled s))"

section \<open>Properties of the tensor preparer\<close>
















text \<open>
  Claim C1, as stated, fails: on the canonical buffer the plane stored first in the output
  is the blue plane (\<open>bOffset = 0\<close>), and its entry for pixel 0 is 0, not 1.
\<close>

theorem C1_first_plane_counterexample:
  "data (imageToInput canonical_buffer unit_params) ! 0 = Num 0
   \<and> data (imageToInput canonical_buffer unit_params) ! 0 \<noteq> Num 1"
  by code_simp

text \<open>
  Claim C1, amended: on the canonical buffer with mean \<open>[0,0,0]\<close> and std \<open>[1,1,1]\<close> the
  output is the blue plane, then the green plane, then the red plane; the value 1 that
  comes from the red byte 255 of pixel 0 stands at pixel 0 of the plane stored last
  (index \<open>2 * pixelCount + 0 = 4\<close>).
\<close>

theorem C1_red_in_last_plane:
  "data (imageToInput canonical_buffer unit_params)
     = [Num 0, Num 0, Num 0, Num 1, Num 1, Num 0]
   \<and> data (imageToInput canonical_buffer unit_params) ! (2 * 2 + 0)
     = normalized (data canonical_buffer) 0 [0, 0, 0] [1, 1, 1] 0
   \<and> normalized (data canonical_buffer) 0 [0, 0, 0] [1, 1, 1] 0 = Num (255 / 255)
   \<and> data (imageToInput canonical_buffer unit_params) ! (2 * 2 + 0) = Num 1"
  by code_simp




section \<open>Properties of the type guard\<close>

lemma has_property_iff:
  "has_property name input \<longleftrightarrow> (\<exists>props. input = JSObject props \<and> name \<in> fst ` set props)"
  by (cases input) auto

lemma instanceof_Uint8Array_iff: "instanceof_Uint8Array v \<longleftrightarrow> (\<exists>b. v = JSUint8Array b)"
  by (cases v) auto

lemma instanceof_Uint8ClampedArray_iff:
  "instanceof_Uint8ClampedArray v \<longleftrightarrow> (\<exists>b. v = JSUint8ClampedArray b)"
  by (cases v) auto

text \<open>
  Claim C6, as stated, fails: the guard accepts an object whose width is a string and
  whose height is \<open>null\<close>, which the recognition test of the specification rejects.
\<close>

theorem C6_mistyped_size_counterexample:
  "isImageRawData mistyped_size_input
   \<and> typeof (get_property mistyped_size_input ''width'') = ''string''
   \<and> typeof (get_property mistyped_size_input ''height'') \<noteq> ''number''
   \<and> \<not> recognition_test_of_spec mistyped_size_input"
  by (simp add: isImageRawData_def recognition_test_of_spec_def mistyped_size_input_def)

text \<open>
  Claim C6, amended: the guard recognises an input as canonical data if and only if the
  input is a non-null object on which the properties \<open>data\<close>, \<open>width\<close> and \<open>height\<close>
  are present, of whatever type, and whose \<open>data\<close> is a \<open>Uint8Array\<close> or a
  \<open>Uint8ClampedArray\<close>.
\<close>

theorem C6_guard_checks_presence:
  "isImageRawData input \<longleftrightarrow>
     (\<exists>props. input = JSObject props
        \<and> ''width'' \<in> fst ` set props
        \<and> ''height'' \<in> fst ` set props
        \<and> ((\<exists>b. map_of props ''data'' = Some (JSUint8Array b))
           \<or> (\<exists>b. map_of props ''data'' = Some (JSUint8ClampedArray b))))"
proof (cases input)
  case (JSObject props)
  have present: "''data'' \<in> fst ` set props"
    if "map_of props ''data'' = Some v" for v
    using map_of_SomeD [OF that] by force
  show ?thesis
    unfolding isImageRawData_def instanceof_Uint8Array_iff instanceof_Uint8ClampedArray_iff
    using JSObject present
    by (auto split: option.splits)
qed (simp_all add: isImageRawData_def)

section \<open>Properties of the context cache\<close>

lemma getContext2D_keeps_entries:
  assumes "getContext2D pf canvas \<sigma> = (r, \<sigma>')" "contextCache \<sigma> k = Some ctx"
  shows "contextCache \<sigma>' k = Some ctx"
  using assms by (auto simp: getContext2D_def split: option.splits)

lemma getContext2D_caches_result:
  assumes "getContext2D pf canvas \<sigma> = (Inr (Some ctx), \<sigma>')"
  shows "contextCache \<sigma>' (canvas_id canvas) = Some ctx"
  using assms by (auto simp: getContext2D_def split: option.splits)

lemma getContext2D_cached:
  assumes "contextCache \<sigma> (canvas_id canvas) = Some ctx"
  shows "getContext2D pf canvas \<sigma> = (Inr (Some ctx), \<sigma>)"
  using assms by (simp add: getContext2D_def)

lemma getContext2D_never_raises: "\<exists>ctx. fst (getContext2D pf canvas \<sigma>) = Inr ctx"
  by (simp add: getContext2D_def split: option.splits)

lemma getContext2D_calls_length:
  "getContext2D_calls calls \<sigma> = (rs, \<sigma>') \<Longrightarrow> length rs = length calls"
  by (induction calls arbitrary: \<sigma> rs) (auto split: prod.splits)

lemma cached_context_is_returned:
  assumes "getContext2D_calls calls \<sigma> = (rs, \<sigma>')" "contextCache \<sigma> k = Some ctx"
    "j < length calls" "canvas_id (snd (calls ! j)) = k"
  shows "rs ! j = Some ctx"
  using assms
proof (induction calls arbitrary: \<sigma> rs j)
  case Nil
  then show ?case by simp
next
  case (Cons call calls)
  obtain pf canvas where call: "call = (pf, canvas)" by (cases call)
  obtain r \<sigma>1 where first: "getContext2D pf canvas \<sigma> = (r, \<sigma>1)" by (cases "getContext2D pf canvas \<sigma>")
  obtain rs1 where rest: "getContext2D_calls calls \<sigma>1 = (rs1, \<sigma>')"
    and rs: "rs = (case r of Inl _ \<Rightarrow> None | Inr c \<Rightarrow> c) # rs1"
    using Cons.prems(1) call first by (auto split: prod.splits)
  have kept: "contextCache \<sigma>1 k = Some ctx"
    using getContext2D_keeps_entries [OF first Cons.prems(2)] .
  show ?case
  proof (cases j)
    case 0
    then have "canvas_id canvas = k" using Cons.prems(4) call by simp
    then have "r = Inr (Some ctx)"
      using getContext2D_cached [of \<sigma> canvas ctx pf] Cons.prems(2) first by simp
    then show ?thesis using 0 rs by simp
  next
    case (Suc i)
    then have "rs1 ! i = Some ctx"
      using Cons.IH [OF rest kept, of i] Cons.prems(3,4) by simp
    then show ?thesis using Suc rs by simp
  qed
qed

text \<open>
  Claim C8: in any run of calls of \<open>getContext2D\<close>, on any canvases and whatever the
  browser answers, once a call on a canvas has returned a context every later call on the
  same canvas returns that context; two calls on one surface never yield distinct
  contexts.
\<close>

theorem C8_context_per_surface:
  assumes "getContext2D_calls calls \<sigma> = (rs, \<sigma>')"
    and "i < j" and "j < length calls"
    and "canvas_id (snd (calls ! i)) = canvas_id (snd (calls ! j))"
    and "rs ! i = Some ctx"
  shows "rs ! j = Some ctx"
  using assms
proof (induction calls arbitrary: \<sigma> rs i j)
  case Nil
  then show ?case by simp
next
  case (Cons call calls)
  obtain pf canvas where call: "call = (pf, canvas)" by (cases call)
  obtain r \<sigma>1 where first: "getContext2D pf canvas \<sigma> = (r, \<sigma>1)" by (cases "getContext2D pf canvas \<sigma>")
  obtain rs1 where rest: "getContext2D_calls calls \<sigma>1 = (rs1, \<sigma>')"
    and rs: "rs = (case r of Inl _ \<Rightarrow> None | Inr c \<Rightarrow> c) # rs1"
    using Cons.prems(1) call first by (auto split: prod.splits)
  obtain j' where j: "j = Suc j'" using Cons.prems(2) by (cases j) auto
  show ?case
  proof (cases i)
    case 0
    then have "r = Inr (Some ctx)"
      using Cons.prems(5) rs getContext2D_never_raises [of pf canvas \<sigma>] first
      by (auto split: sum.splits)
    then have "contextCache \<sigma>1 (canvas_id canvas) = Some ctx"
      using getContext2D_caches_result first by simp
    moreover have "canvas_id (snd (calls ! j')) = canvas_id canvas"
      using Cons.prems(4) 0 j call by simp
    ultimately have "rs1 ! j' = Some ctx"
      using cached_context_is_returned [OF rest, of "canvas_id canvas" ctx j'] Cons.prems(3) j
      by simp
    then show ?thesis using j rs by simp
  next
    case (Suc i')
    then have "rs1 ! j' = Some ctx"
      using Cons.IH [OF rest, of i' j'] Cons.prems j rs by simp
    then show ?thesis using j rs by simp
  qed
qed

text \<open>The theorem of claim C8 on three calls on one canvas, the browser changing its answer.\<close>

theorem C8_context_per_surface_witness:
  "fst (getContext2D_calls [(obliging, some_canvas), (fickle, some_canvas), (fickle, some_canvas)]
          initial_world) ! 0 = Some 7
   \<and> fst (getContext2D_calls [(obliging, some_canvas), (fickle, some_canvas), (fickle, some_canvas)]
          initial_world) ! 2 = Some 7
   \<and> getContext fickle some_canvas = Some 107"
proof -
  obtain rs \<sigma>' where run:
    "getContext2D_calls [(obliging, some_canvas), (fickle, some_canvas), (fickle, some_canvas)]
       initial_world = (rs, \<sigma>')"
    by (cases "getContext2D_calls [(obliging, some_canvas), (fickle, some_canvas),
         (fickle, some_canvas)] initial_world")
  have first: "rs ! 0 = Some 7"
    using run
    by (auto simp: getContext2D_def obliging_def fickle_def some_canvas_def initial_world_def
             split: prod.splits)
  have "rs ! 2 = Some 7"
    using C8_context_per_surface [OF run, of 0 2 7] first by simp
  moreover have "getContext fickle some_canvas = Some 107"
    by (simp add: fickle_def some_canvas_def)
  ultimately show ?thesis using first run by simp
qed

section \<open>Properties of \<open>fromImageBitmap\<close>\<close>

lemma and_then_Inr: "f \<sigma> = (Inr x, \<sigma>') \<Longrightarrow> and_then f g \<sigma> = g x \<sigma>'"
  by (simp add: and_then_def)

lemma and_then_Inl: "f \<sigma> = (Inl e, \<sigma>') \<Longrightarrow> and_then f g \<sigma> = (Inl e, \<sigma>')"
  by (simp add: and_then_def)

lemma and_then_succeed: "and_then (succeed x) g = g x"
  by (simp add: and_then_def succeed_def fun_eq_iff)

lemma and_then_throw: "and_then (throw e) g = throw e"
  by (simp add: and_then_def throw_def fun_eq_iff)

lemma appendsD: "appends f es \<Longrightarrow> f \<sigma> = (r, \<sigma>') \<Longrightarrow> effects \<sigma>' = effects \<sigma> @ es"
  unfolding appends_def by (metis snd_conv)

lemma appends_succeed: "appends (succeed x) []"
  by (simp add: appends_def succeed_def)

lemma appends_throw: "appends (throw e) []"
  by (simp add: appends_def throw_def)

lemma appends_logged: "appends (logged ev) [ev]"
  by (simp add: appends_def logged_def)

lemma appends_and_then:
  assumes "appends f es" "\<And>x. appends (g x) []"
  shows "appends (and_then f g) es"
  unfolding appends_def
proof
  fix \<sigma>
  obtain r \<sigma>' where f: "f \<sigma> = (r, \<sigma>')" by (cases "f \<sigma>")
  then have e: "effects \<sigma>' = effects \<sigma> @ es" using assms(1) by (rule appendsD [rotated])
  show "effects (snd (and_then f g \<sigma>)) = effects \<sigma> @ es"
  proof (cases r)
    case (Inl a)
    then show ?thesis using f e by (simp add: and_then_def)
  next
    case (Inr x)
    then have "and_then f g \<sigma> = g x \<sigma>'" using f by (simp add: and_then_def)
    then show ?thesis using assms(2) [of x] e by (simp add: appends_def)
  qed
qed

lemma appends_try_ignore:
  assumes "appends f es"
  shows "appends (try_ignore f) es"
  unfolding appends_def
proof
  fix \<sigma>
  obtain r \<sigma>' where f: "f \<sigma> = (r, \<sigma>')" by (cases "f \<sigma>")
  then show "effects (snd (try_ignore f \<sigma>)) = effects \<sigma> @ es"
    using appendsD [OF assms f] by (simp add: try_ignore_def)
qed

lemma appends_from_platform: "appends (from_platform r) []"
  by (cases r) (simp_all add: from_platform_def appends_succeed appends_throw)

lemma appends_raise_if: "appends (raise_if r) []"
  by (cases r) (simp_all add: raise_if_def appends_succeed appends_throw)

lemma appends_from_setter: "appends (from_setter r) []"
  by (cases r) (simp_all add: from_setter_def appends_succeed appends_throw)

lemma appends_fresh_canvas: "appends (fresh_canvas kind w h) []"
  by (simp add: appends_def fresh_canvas_def)

lemma appends_createCanvas: "appends (createCanvas env w h) []"
  unfolding createCanvas_def
  by (auto intro!: appends_and_then appends_throw appends_fresh_canvas appends_from_setter
           split: option.splits)

lemma appends_getContext2D: "appends (getContext2D pf canvas) []"
  by (simp add: appends_def getContext2D_def split: option.splits)

lemma appends_ctx_getImageData: "appends (ctx_getImageData pf canvas) []"
  unfolding ctx_getImageData_def
  by (auto intro!: appends_and_then appends_throw appends_raise_if appends_succeed)

lemma appends_new_ImageData: "appends (new_ImageData d w h) []"
  unfolding new_ImageData_def by (auto intro: appends_throw appends_succeed)

lemma appends_canvasPutImageData: "appends (canvasPutImageData pf canvas imageData w h) []"
  unfolding canvasPutImageData_def
  by (auto intro!: appends_and_then appends_throw appends_succeed appends_from_setter
        appends_getContext2D split: option.splits)

lemma appends_new_ImageRaw: "appends (new_ImageRaw env pf input) []"
  unfolding new_ImageRaw_def Let_def
  by (intro appends_and_then appends_createCanvas appends_new_ImageData
        appends_canvasPutImageData appends_succeed)

lemma appends_canvasPutImageData_dom: "appends (canvasPutImageData_dom pf canvas imageData w h) []"
  unfolding canvasPutImageData_dom_def
  by (auto intro!: appends_and_then appends_throw appends_succeed appends_from_setter
        split: option.splits)

lemma appends_new_ImageRaw_dom: "appends (new_ImageRaw_dom pf input) []"
  unfolding new_ImageRaw_dom_def Let_def createElement_canvas_def
  by (intro appends_and_then appends_fresh_canvas appends_new_ImageData
        appends_canvasPutImageData_dom appends_succeed)

lemma appends_close: "appends (close pf bitmap) [CloseBitmap]"
  unfolding close_def by (intro appends_and_then appends_logged appends_raise_if)

lemma appends_ctx_drawImage_bitmap: "appends (ctx_drawImage_bitmap pf bitmap canvas) [DrawBitmap]"
  unfolding ctx_drawImage_bitmap_def
  by (intro appends_and_then appends_logged appends_from_platform appends_succeed)

lemma appends_try_finally:
  assumes "appends body es" "appends cleanup es'"
  shows "appends (try_finally body cleanup) (es @ es')"
  unfolding appends_def
proof
  fix \<sigma>
  obtain r \<sigma>1 where b: "body \<sigma> = (r, \<sigma>1)" by (cases "body \<sigma>")
  obtain c \<sigma>2 where c: "cleanup \<sigma>1 = (c, \<sigma>2)" by (cases "cleanup \<sigma>1")
  have "effects \<sigma>1 = effects \<sigma> @ es" using assms(1) b by (rule appendsD)
  moreover have "effects \<sigma>2 = effects \<sigma>1 @ es'" using assms(2) c by (rule appendsD)
  ultimately show "effects (snd (try_finally body cleanup \<sigma>)) = effects \<sigma> @ es @ es'"
    using b c by (cases c) (simp_all add: try_finally_def)
qed

lemma has_zero_dimension_run:
  "has_zero_dimension bitmap \<sigma> =
     (Inr (bitmap_width bitmap = 0 \<or> bitmap_height bitmap = 0),
      \<sigma>\<lparr>effects := effects \<sigma> @ (if bitmap_width bitmap = 0 then [ReadWidth]
                                  else [ReadWidth, ReadHeight])\<rparr>)"
  by (simp add: has_zero_dimension_def read_width_def read_height_def and_then_def logged_def
        succeed_def)

lemma read_width_run:
  "read_width bitmap \<sigma> = (Inr (bitmap_width bitmap), \<sigma>\<lparr>effects := effects \<sigma> @ [ReadWidth]\<rparr>)"
  by (simp add: read_width_def and_then_def logged_def succeed_def)

lemma read_height_run:
  "read_height bitmap \<sigma> = (Inr (bitmap_height bitmap), \<sigma>\<lparr>effects := effects \<sigma> @ [ReadHeight]\<rparr>)"
  by (simp add: read_height_def and_then_def logged_def succeed_def)

lemma createCanvas_succeeds:
  assumes "canvas_available env w h"
  shows "\<exists>canvas \<sigma>'. createCanvas env (Num (real w)) (Num (real h)) \<sigma> = (Inr canvas, \<sigma>')
           \<and> effects \<sigma>' = effects \<sigma>"
proof -
  have t: "truncated (real n) = int n" for n by (simp add: truncated_def)
  have r: "enforce_range (Num (real n)) = Some n" if "n < 2 ^ 53" for n :: nat
  proof -
    have "int n < 2 ^ 53" using that by (metis of_nat_less_iff of_nat_numeral of_nat_power)
    then show ?thesis by (simp add: t)
  qed
  show ?thesis
  proof (cases "HAS_OFFSCREEN_CANVAS env")
    case True
    then show ?thesis using assms r
      by (simp add: canvas_available_def createCanvas_def fresh_canvas_def)
  next
    case False
    then show ?thesis using assms
      by (simp add: canvas_available_def createCanvas_def fresh_canvas_def and_then_def
            from_setter_def set_canvas_width_def set_canvas_height_def succeed_def)
  qed
qed

lemma release_on_null_context:
  "appends (and_then (try_ignore (close pf bitmap)) (\<lambda>_. throw e)) [CloseBitmap]"
  by (intro appends_and_then appends_try_ignore appends_close appends_throw)

lemma convert_then_release:
  assumes "\<And>buffer. appends (build buffer) []"
  shows "appends
           (try_finally
              (and_then (ctx_drawImage_bitmap pf bitmap canvas) (\<lambda>canvas.
               and_then (ctx_getImageData pf canvas) (\<lambda>imageData.
               build \<lparr>data = data imageData, width = width imageData,
                          height = height imageData\<rparr>)))
              (try_ignore (close pf bitmap)))
           [DrawBitmap, CloseBitmap]"
proof -
  have "appends
           (try_finally
              (and_then (ctx_drawImage_bitmap pf bitmap canvas) (\<lambda>canvas.
               and_then (ctx_getImageData pf canvas) (\<lambda>imageData.
               build \<lparr>data = data imageData, width = width imageData,
                          height = height imageData\<rparr>)))
              (try_ignore (close pf bitmap)))
           ([DrawBitmap] @ [CloseBitmap])"
    by (intro appends_try_finally appends_and_then appends_ctx_drawImage_bitmap
          appends_ctx_getImageData assms appends_try_ignore appends_close)
  then show ?thesis by simp
qed

lemma fromImageBitmap_uses:
  assumes "bitmap_width bitmap \<noteq> 0" "bitmap_height bitmap \<noteq> 0"
    "canvas_available env (bitmap_width bitmap) (bitmap_height bitmap)"
  shows "uses_during (fromImageBitmap env pf bitmap) \<sigma>
           = [ReadWidth, ReadHeight, ReadWidth, ReadHeight, CloseBitmap]
       \<or> uses_during (fromImageBitmap env pf bitmap) \<sigma>
           = [ReadWidth, ReadHeight, ReadWidth, ReadHeight, DrawBitmap, CloseBitmap]"
proof -
  let ?\<sigma>2 = "\<sigma>\<lparr>effects := effects \<sigma> @ [ReadWidth, ReadHeight, ReadWidth, ReadHeight]\<rparr>"
  let ?fail = "and_then (try_ignore (close pf bitmap))
                 (\<lambda>_. throw (Error ''Failed to create canvas 2D context'')) :: ImageRaw action"
  obtain canvas \<sigma>3 where cc: "createCanvas env (Num (real (bitmap_width bitmap)))
      (Num (real (bitmap_height bitmap))) ?\<sigma>2 = (Inr canvas, \<sigma>3)"
    and e3: "effects \<sigma>3 = effects ?\<sigma>2"
    using createCanvas_succeeds [OF assms(3), of ?\<sigma>2] by blast
  let ?convert = "try_finally
              (and_then (ctx_drawImage_bitmap pf bitmap canvas) (\<lambda>canvas.
               and_then (ctx_getImageData pf canvas) (\<lambda>imageData.
               new_ImageRaw env pf \<lparr>data = data imageData, width = width imageData,
                          height = height imageData\<rparr>)))
              (try_ignore (close pf bitmap))"
  obtain ctx \<sigma>4 where gc: "getContext2D pf canvas \<sigma>3 = (Inr ctx, \<sigma>4)"
    using getContext2D_never_raises [of pf canvas \<sigma>3] by (cases "getContext2D pf canvas \<sigma>3") auto
  have e4: "effects \<sigma>4 = effects \<sigma>3"
    using appendsD [OF appends_getContext2D gc] by simp
  have run: "fromImageBitmap env pf bitmap \<sigma>
             = (case ctx of None \<Rightarrow> ?fail | Some _ \<Rightarrow> ?convert) \<sigma>4"
    using assms(1,2) cc gc
    by (simp add: fromImageBitmap_def and_then_def has_zero_dimension_run
          read_width_run read_height_run)
  show ?thesis
  proof (cases ctx)
    case None
    obtain r \<sigma>5 where f: "?fail \<sigma>4 = (r, \<sigma>5)" by (cases "?fail \<sigma>4")
    have "effects \<sigma>5 = effects \<sigma>4 @ [CloseBitmap]"
      using appendsD [OF release_on_null_context f] .
    then show ?thesis unfolding uses_during_def run using None f e3 e4 by simp
  next
    case (Some c)
    obtain r \<sigma>5 where f: "?convert \<sigma>4 = (r, \<sigma>5)" by (cases "?convert \<sigma>4")
    have "effects \<sigma>5 = effects \<sigma>4 @ [DrawBitmap, CloseBitmap]"
      using appendsD [OF convert_then_release f] appends_new_ImageRaw by blast
    then show ?thesis unfolding uses_during_def run using Some f e3 e4 by simp
  qed
qed

lemma fromImageBitmap_dom_uses:
  assumes "bitmap_width bitmap \<noteq> 0" "bitmap_height bitmap \<noteq> 0"
  shows "uses_during (fromImageBitmap_dom pf bitmap) \<sigma>
           = [ReadWidth, ReadHeight, ReadWidth, ReadHeight, CloseBitmap]
       \<or> uses_during (fromImageBitmap_dom pf bitmap) \<sigma>
           = [ReadWidth, ReadHeight, ReadWidth, ReadHeight, DrawBitmap, CloseBitmap]"
proof -
  let ?\<sigma>4 = "\<sigma>\<lparr>next_canvas := Suc (next_canvas \<sigma>),
                effects := effects \<sigma> @ [ReadWidth, ReadHeight, ReadWidth, ReadHeight]\<rparr>"
  let ?canvas = "\<lparr>canvas_id = next_canvas \<sigma>, canvas_kind = HTMLCanvasElement,
      canvas_width = element_size 300 (Num (real (bitmap_width bitmap))),
      canvas_height = element_size 150 (Num (real (bitmap_height bitmap))),
      canvas_pixels = None\<rparr>"
  let ?fail = "and_then (try_ignore (close pf bitmap))
                 (\<lambda>_. throw (Error ''Failed to create canvas 2D context'')) :: ImageRaw action"
  let ?convert = "try_finally
              (and_then (ctx_drawImage_bitmap pf bitmap ?canvas) (\<lambda>canvas.
               and_then (ctx_getImageData pf canvas) (\<lambda>imageData.
               new_ImageRaw_dom pf \<lparr>data = data imageData, width = width imageData,
                          height = height imageData\<rparr>)))
              (try_ignore (close pf bitmap))"
  have run: "fromImageBitmap_dom pf bitmap \<sigma>
             = (case getContext pf ?canvas of None \<Rightarrow> ?fail | Some _ \<Rightarrow> ?convert) ?\<sigma>4"
    using assms
    by (simp add: fromImageBitmap_dom_def and_then_def has_zero_dimension_run
          read_width_run read_height_run createElement_canvas_def fresh_canvas_def
          from_setter_def set_canvas_width_def set_canvas_height_def succeed_def
        split: option.splits)
  show ?thesis
  proof (cases "getContext pf ?canvas")
    case None
    obtain r \<sigma>5 where f: "?fail ?\<sigma>4 = (r, \<sigma>5)" by (cases "?fail ?\<sigma>4")
    have "effects \<sigma>5 = effects ?\<sigma>4 @ [CloseBitmap]"
      using appendsD [OF release_on_null_context f] .
    then show ?thesis unfolding uses_during_def run using None f by simp
  next
    case (Some c)
    obtain r \<sigma>5 where f: "?convert ?\<sigma>4 = (r, \<sigma>5)" by (cases "?convert ?\<sigma>4")
    have "effects \<sigma>5 = effects ?\<sigma>4 @ [DrawBitmap, CloseBitmap]"
      using appendsD [OF convert_then_release f] appends_new_ImageRaw_dom by blast
    then show ?thesis unfolding uses_during_def run using Some f by simp
  qed
qed

lemma fromImageBitmap_rejects_zero:
  assumes "bitmap_width bitmap = 0 \<or> bitmap_height bitmap = 0"
  shows "fromImageBitmap env pf bitmap \<sigma>
         = (Inl (Error ''Invalid ImageBitmap: dimensions are zero (bitmap may be closed or neutered)''),
            \<sigma>\<lparr>effects := effects \<sigma> @ (if bitmap_width bitmap = 0 then [ReadWidth]
                                        else [ReadWidth, ReadHeight])\<rparr>)"
  using assms by (simp add: fromImageBitmap_def and_then_def has_zero_dimension_run throw_def)

lemma fromImageBitmap_dom_rejects_zero:
  assumes "bitmap_width bitmap = 0 \<or> bitmap_height bitmap = 0"
  shows "fromImageBitmap_dom pf bitmap \<sigma>
         = (Inl (Error ''Invalid ImageBitmap: dimensions are zero (bitmap may be closed or neutered)''),
            \<sigma>\<lparr>effects := effects \<sigma> @ (if bitmap_width bitmap = 0 then [ReadWidth]
                                        else [ReadWidth, ReadHeight])\<rparr>)"
  using assms by (simp add: fromImageBitmap_dom_def and_then_def has_zero_dimension_run throw_def)

text \<open>
  Claim C2, as stated, fails on the zero-dimension validation failure: a bitmap whose
  dimensions are zero is rejected and \<open>close\<close> is not invoked at all.
\<close>

theorem C2_zero_dimension_counterexample:
  "fst (fromImageBitmap main_thread obliging closed_bitmap initial_world)
     = Inl (Error ''Invalid ImageBitmap: dimensions are zero (bitmap may be closed or neutered)'')
   \<and> count_list (uses_during (fromImageBitmap main_thread obliging closed_bitmap) initial_world)
        CloseBitmap = 0
   \<and> fst (fromImageBitmap_dom obliging closed_bitmap initial_world)
     = Inl (Error ''Invalid ImageBitmap: dimensions are zero (bitmap may be closed or neutered)'')
   \<and> count_list (uses_during (fromImageBitmap_dom obliging closed_bitmap) initial_world)
        CloseBitmap = 0"
  by (simp add: fromImageBitmap_rejects_zero fromImageBitmap_dom_rejects_zero uses_during_def
        closed_bitmap_def)

text \<open>
  Claim C2, amended: for a bitmap whose dimensions are not zero and for which a canvas can
  be created, \<open>close\<close> is invoked exactly once and is the last use of the handle, in both
  copies of \<open>fromImageBitmap\<close> and whatever the browser does afterwards (conversion
  succeeds, the context is \<open>null\<close>, drawing, reading back or constructing the image
  raises, \<open>close\<close> itself raises). A bitmap with a zero dimension is rejected by the
  validation before anything is acquired, and \<open>close\<close> is not invoked.
\<close>

theorem C2_bitmap_release:
  "(bitmap_width bitmap \<noteq> 0 \<and> bitmap_height bitmap \<noteq> 0
      \<and> canvas_available env (bitmap_width bitmap) (bitmap_height bitmap) \<longrightarrow>
      count_list (uses_during (fromImageBitmap env pf bitmap) \<sigma>) CloseBitmap = 1
      \<and> last (uses_during (fromImageBitmap env pf bitmap) \<sigma>) = CloseBitmap)
   \<and> (bitmap_width bitmap \<noteq> 0 \<and> bitmap_height bitmap \<noteq> 0 \<longrightarrow>
      count_list (uses_during (fromImageBitmap_dom pf bitmap) \<sigma>) CloseBitmap = 1
      \<and> last (uses_during (fromImageBitmap_dom pf bitmap) \<sigma>) = CloseBitmap)
   \<and> (bitmap_width bitmap = 0 \<or> bitmap_height bitmap = 0 \<longrightarrow>
      fst (fromImageBitmap env pf bitmap \<sigma>)
        = Inl (Error ''Invalid ImageBitmap: dimensions are zero (bitmap may be closed or neutered)'')
      \<and> fst (fromImageBitmap_dom pf bitmap \<sigma>)
        = Inl (Error ''Invalid ImageBitmap: dimensions are zero (bitmap may be closed or neutered)'')
      \<and> CloseBitmap \<notin> set (uses_during (fromImageBitmap env pf bitmap) \<sigma>)
      \<and> CloseBitmap \<notin> set (uses_during (fromImageBitmap_dom pf bitmap) \<sigma>))"
proof (intro conjI impI)
  assume a: "bitmap_width bitmap \<noteq> 0 \<and> bitmap_height bitmap \<noteq> 0
      \<and> canvas_available env (bitmap_width bitmap) (bitmap_height bitmap)"
  then have u: "uses_during (fromImageBitmap env pf bitmap) \<sigma>
           = [ReadWidth, ReadHeight, ReadWidth, ReadHeight, CloseBitmap]
       \<or> uses_during (fromImageBitmap env pf bitmap) \<sigma>
           = [ReadWidth, ReadHeight, ReadWidth, ReadHeight, DrawBitmap, CloseBitmap]"
    using fromImageBitmap_uses by blast
  show "count_list (uses_during (fromImageBitmap env pf bitmap) \<sigma>) CloseBitmap = 1"
    using u by auto
  show "last (uses_during (fromImageBitmap env pf bitmap) \<sigma>) = CloseBitmap"
    using u by auto
next
  assume a: "bitmap_width bitmap \<noteq> 0 \<and> bitmap_height bitmap \<noteq> 0"
  then have u: "uses_during (fromImageBitmap_dom pf bitmap) \<sigma>
           = [ReadWidth, ReadHeight, ReadWidth, ReadHeight, CloseBitmap]
       \<or> uses_during (fromImageBitmap_dom pf bitmap) \<sigma>
           = [ReadWidth, ReadHeight, ReadWidth, ReadHeight, DrawBitmap, CloseBitmap]"
    using fromImageBitmap_dom_uses by blast
  show "count_list (uses_during (fromImageBitmap_dom pf bitmap) \<sigma>) CloseBitmap = 1"
    using u by auto
  show "last (uses_during (fromImageBitmap_dom pf bitmap) \<sigma>) = CloseBitmap"
    using u by auto
next
  assume z: "bitmap_width bitmap = 0 \<or> bitmap_height bitmap = 0"
  show "fst (fromImageBitmap env pf bitmap \<sigma>)
        = Inl (Error ''Invalid ImageBitmap: dimensions are zero (bitmap may be closed or neutered)'')"
    using z by (simp add: fromImageBitmap_rejects_zero)
  show "fst (fromImageBitmap_dom pf bitmap \<sigma>)
        = Inl (Error ''Invalid ImageBitmap: dimensions are zero (bitmap may be closed or neutered)'')"
    using z by (simp add: fromImageBitmap_dom_rejects_zero)
  show "CloseBitmap \<notin> set (uses_during (fromImageBitmap env pf bitmap) \<sigma>)"
    using z by (simp add: fromImageBitmap_rejects_zero uses_during_def)
  show "CloseBitmap \<notin> set (uses_during (fromImageBitmap_dom pf bitmap) \<sigma>)"
    using z by (simp add: fromImageBitmap_dom_rejects_zero uses_during_def)
qed

text \<open>The theorem of claim C2 on an open bitmap of 2 by 1 pixels and on a closed one.\<close>

theorem C2_bitmap_release_witness:
  "bitmap_width two_by_one \<noteq> 0 \<and> bitmap_height two_by_one \<noteq> 0
   \<and> canvas_available main_thread (bitmap_width two_by_one) (bitmap_height two_by_one)
   \<and> count_list (uses_during (fromImageBitmap main_thread obliging two_by_one) initial_world)
        CloseBitmap = 1
   \<and> last (uses_during (fromImageBitmap main_thread obliging two_by_one) initial_world)
        = CloseBitmap
   \<and> count_list (uses_during (fromImageBitmap_dom obliging two_by_one) initial_world)
        CloseBitmap = 1
   \<and> (bitmap_width closed_bitmap = 0 \<or> bitmap_height closed_bitmap = 0)
   \<and> CloseBitmap \<notin> set (uses_during (fromImageBitmap main_thread obliging closed_bitmap)
                           initial_world)"
proof -
  have open_bitmap: "bitmap_width two_by_one \<noteq> 0 \<and> bitmap_height two_by_one \<noteq> 0"
    by (simp add: two_by_one_def)
  have canvas: "canvas_available main_thread (bitmap_width two_by_one) (bitmap_height two_by_one)"
    by (simp add: canvas_available_def main_thread_def HAS_OFFSCREEN_CANVAS_def two_by_one_def)
  have closed: "bitmap_width closed_bitmap = 0 \<or> bitmap_height closed_bitmap = 0"
    by (simp add: closed_bitmap_def)
  show ?thesis
    using C2_bitmap_release [of two_by_one main_thread obliging initial_world]
      C2_bitmap_release [of closed_bitmap main_thread obliging initial_world]
      open_bitmap canvas closed
    by blast
qed

section \<open>Properties of \<open>resize\<close>\<close>


































section \<open>Properties of \<open>fromHTMLImageElement\<close>\<close>









































section \<open>Properties of the call serializer\<close>

lemma wf_new: "well_formed new_Ocr"
  by (simp add: well_formed_def new_Ocr_def)

lemma wf_started:
  "well_formed s \<Longrightarrow> k < length (detect_calls s) \<Longrightarrow> started (phase (detect_calls s ! k))
   \<Longrightarrow> k \<in> set (fulfilled s)"
  unfolding well_formed_def by blast

lemma wf_numbering:
  "well_formed s \<Longrightarrow> k < length (detect_calls s) \<Longrightarrow>
   currentMutex (detect_calls s ! k) = k \<and> releaseMutex (detect_calls s ! k) = Suc k"
  unfolding well_formed_def by blast

lemma wf_fulfilled:
  "well_formed s \<Longrightarrow> set (fulfilled s) =
     insert 0 {Suc k | k. k < length (detect_calls s) \<and> returned (phase (detect_calls s ! k))}"
  unfolding well_formed_def by blast

lemma set_phase_simps:
  "mutex (set_phase k p s) = mutex s"
  "promises (set_phase k p s) = promises s"
  "fulfilled (set_phase k p s) = fulfilled s"
  "length (detect_calls (set_phase k p s)) = length (detect_calls s)"
  by (simp_all add: set_phase_def)

lemma set_phase_nth:
  "j < length (detect_calls s) \<Longrightarrow>
   detect_calls (set_phase k p s) ! j =
     (if j = k then (detect_calls s ! k)\<lparr>phase := p\<rparr> else detect_calls s ! j)"
  by (simp add: set_phase_def nth_list_update)

lemma wf_set_phase:
  assumes "well_formed s" "k < length (detect_calls s)"
    "returned p = returned (phase (detect_calls s ! k))"
    "started p \<longrightarrow> k \<in> set (fulfilled s)"
  shows "well_formed (set_phase k p s)"
proof -
  have r: "returned (phase (detect_calls (set_phase k p s) ! j))
           = returned (phase (detect_calls s ! j))" if "j < length (detect_calls s)" for j
    using that assms(3) by (simp add: set_phase_nth)
  have "{Suc j | j. j < length (detect_calls s) \<and> returned (phase (detect_calls (set_phase k p s) ! j))}
        = {Suc j | j. j < length (detect_calls s) \<and> returned (phase (detect_calls s ! j))}"
    using r by auto
  then show ?thesis
    using assms unfolding well_formed_def
    by (auto simp: set_phase_simps set_phase_nth)
qed

lemma wf_step:
  assumes "well_formed s" "step j s = Some s'"
  shows "well_formed s'"
proof (cases j)
  case Detect
  then have s': "s' = s\<lparr>mutex := promises s, promises := Suc (promises s),
             detect_calls := detect_calls s @
               [\<lparr>currentMutex = mutex s, releaseMutex = promises s, phase = AwaitingMutex\<rparr>]\<rparr>"
    using assms(2) by simp
  have "{Suc k | k. k < Suc (length (detect_calls s)) \<and> returned (phase ((detect_calls s @
               [\<lparr>currentMutex = mutex s, releaseMutex = promises s, phase = AwaitingMutex\<rparr>]) ! k))}
      = {Suc k | k. k < length (detect_calls s) \<and> returned (phase (detect_calls s ! k))}"
    by (auto simp: nth_append less_Suc_eq)
  then show ?thesis
    using assms(1) unfolding well_formed_def s'
    by (auto simp: nth_append less_Suc_eq)
next
  case (Continue k)
  then have en: "phase_of s k = Some AwaitingMutex"
    "currentMutex (detect_calls s ! k) \<in> set (fulfilled s)" and s': "s' = set_phase k InDetection s"
    using assms(2) by (auto split: if_splits)
  have k: "k < length (detect_calls s)" "phase (detect_calls s ! k) = AwaitingMutex"
    using en(1) by (auto simp: phase_of_def split: if_splits)
  have "k \<in> set (fulfilled s)" using en(2) wf_numbering [OF assms(1) k(1)] by simp
  then show ?thesis unfolding s' using assms(1) k by (intro wf_set_phase) simp_all
next
  case (DetectionSettles k result)
  then have en: "phase_of s k = Some InDetection"
    and s': "s' = set_phase k (case result of Fulfilled \<Rightarrow> InRecognition
                                            | Rejected \<Rightarrow> Leaving Rejected) s"
    using assms(2) by (auto split: if_splits)
  have k: "k < length (detect_calls s)" "phase (detect_calls s ! k) = InDetection"
    using en by (auto simp: phase_of_def split: if_splits)
  have "k \<in> set (fulfilled s)" using wf_started [OF assms(1) k(1)] k(2) by simp
  then show ?thesis unfolding s' using assms(1) k
    by (intro wf_set_phase) (simp_all split: outcome.splits)
next
  case (RecognitionSettles k result)
  then have en: "phase_of s k = Some InRecognition"
    and s': "s' = set_phase k (Leaving result) s"
    using assms(2) by (auto split: if_splits)
  have k: "k < length (detect_calls s)" "phase (detect_calls s ! k) = InRecognition"
    using en by (auto simp: phase_of_def split: if_splits)
  have "k \<in> set (fulfilled s)" using wf_started [OF assms(1) k(1)] k(2) by simp
  then show ?thesis unfolding s' using assms(1) k
    by (intro wf_set_phase) simp_all
next
  case (Finally k)
  then obtain result where en: "phase_of s k = Some (Leaving result)"
    and s': "s' = set_phase k (Returned result)
                  (s\<lparr>fulfilled := releaseMutex (detect_calls s ! k) # fulfilled s\<rparr>)"
    using assms(2) by (auto split: option.splits phase.splits)
  have k: "k < length (detect_calls s)" "phase (detect_calls s ! k) = Leaving result"
    using en by (auto simp: phase_of_def split: if_splits)
  have rel: "releaseMutex (detect_calls s ! k) = Suc k" using wf_numbering [OF assms(1) k(1)] by simp
  have "{Suc j | j. j < length (detect_calls s) \<and>
           returned (phase (detect_calls (set_phase k (Returned result)
                  (s\<lparr>fulfilled := Suc k # fulfilled s\<rparr>)) ! j))}
        = insert (Suc k) {Suc j | j. j < length (detect_calls s) \<and> returned (phase (detect_calls s ! j))}"
    using k by (auto simp: set_phase_nth)
  then show ?thesis
    using assms(1) k unfolding well_formed_def s' rel
    by (auto simp: set_phase_simps set_phase_nth)
qed

lemma wf_run:
  assumes "well_formed s" "run js s = Some s'"
  shows "well_formed s'"
  using assms
  by (induction js arbitrary: s) (auto split: option.splits dest: wf_step)


lemma earlier_returned:
  assumes "well_formed s" "j < length (detect_calls s)" "started (phase (detect_calls s ! j))" "i < j"
  shows "returned (phase (detect_calls s ! i))"
  using assms(2,3,4)
proof (induction j arbitrary: i)
  case 0
  then show ?case by simp
next
  case (Suc j)
  have "Suc j \<in> set (fulfilled s)" using wf_started [OF assms(1) Suc.prems(1,2)] .
  then have prev: "returned (phase (detect_calls s ! j))"
    using wf_fulfilled [OF assms(1)] by auto
  show ?case
  proof (cases "i = j")
    case True
    then show ?thesis using prev by simp
  next
    case False
    then have "i < j" using Suc.prems(3) by simp
    moreover have "started (phase (detect_calls s ! j))"
      using prev by (cases "phase (detect_calls s ! j)") simp_all
    ultimately show ?thesis using Suc.IH [of i] Suc.prems(1) by simp
  qed
qed

lemma executing_started: "executing p \<Longrightarrow> started p \<and> \<not> returned p"
  by (cases p) simp_all

lemma at_most_one_executing:
  assumes "well_formed s" "i < length (detect_calls s)" "j < length (detect_calls s)"
    "executing (phase (detect_calls s ! i))" "executing (phase (detect_calls s ! j))"
  shows "i = j"
proof (rule ccontr)
  assume "i \<noteq> j"
  then consider "i < j" | "j < i" by linarith
  then show False
  proof cases
    case 1
    then show ?thesis
      using earlier_returned [OF assms(1) assms(3) _ 1] executing_started assms(4,5) by blast
  next
    case 2
    then show ?thesis
      using earlier_returned [OF assms(1) assms(2) _ 2] executing_started assms(4,5) by blast
  qed
qed

lemma run_append:
  "run (js @ js') s = (case run js s of None \<Rightarrow> None | Some s' \<Rightarrow> run js' s')"
  by (induction js arbitrary: s) (auto split: option.splits)

lemma entries_append: "entries (js @ js') = entries js @ entries js'"
  by (induction js rule: entries.induct) auto

lemma phase_of_set_phase:
  "phase_of (set_phase k p s) j = (if j = k \<and> k < length (detect_calls s) then Some p else phase_of s j)"
  by (auto simp: phase_of_def set_phase_def nth_list_update)

lemma phase_of_Some:
  "phase_of s k = Some p \<longleftrightarrow> k < length (detect_calls s) \<and> phase (detect_calls s ! k) = p"
  by (auto simp: phase_of_def)

text \<open>The calls that have entered the body are those that the run has resumed, in order.\<close>

lemma entries_in_order:
  assumes "run js new_Ocr = Some s"
  shows "well_formed s \<and> entries js = [0..<length (entries js)]
    \<and> length (entries js) \<le> length (detect_calls s)
    \<and> (\<forall>k < length (detect_calls s).
          started (phase (detect_calls s ! k)) \<longleftrightarrow> k < length (entries js))"
  using assms
proof (induction js arbitrary: s rule: rev_induct)
  case Nil
  then have "s = new_Ocr" by simp
  then show ?case using wf_new by (simp add: new_Ocr_def)
next
  case (snoc j js)
  from snoc.prems obtain s0 where s0: "run js new_Ocr = Some s0" and st: "step j s0 = Some s"
    by (auto simp: run_append split: option.splits)
  note ih = snoc.IH [OF s0]
  let ?m = "length (entries js)"
  have wf0: "well_formed s0" using ih by simp
  have wfs: "well_formed s" using wf_step [OF wf0 st] .
  have settle: ?case
    if "entries [j] = []" "length (detect_calls s) = length (detect_calls s0)"
      "\<forall>k < length (detect_calls s0). started (phase (detect_calls s ! k))
           = started (phase (detect_calls s0 ! k))"
    using that ih wfs by (simp add: entries_append)
  show ?case
  proof (cases j)
    case Detect
    then have s: "s = s0\<lparr>mutex := promises s0, promises := Suc (promises s0),
             detect_calls := detect_calls s0 @
               [\<lparr>currentMutex = mutex s0, releaseMutex = promises s0, phase = AwaitingMutex\<rparr>]\<rparr>"
      using st by simp
    show ?thesis
      using ih wfs Detect unfolding s
      by (auto simp: entries_append nth_append less_Suc_eq)
  next
    case (Continue k)
    then have en: "phase_of s0 k = Some AwaitingMutex"
      "currentMutex (detect_calls s0 ! k) \<in> set (fulfilled s0)"
      and s: "s = set_phase k InDetection s0"
      using st by (auto split: if_splits)
    have k: "k < length (detect_calls s0)" "phase (detect_calls s0 ! k) = AwaitingMutex"
      using en(1) by (auto simp: phase_of_Some)
    have "\<not> k < ?m" using ih k by auto
    moreover have "k \<le> ?m"
    proof (cases k)
      case 0
      then show ?thesis by simp
    next
      case (Suc k')
      have "Suc k' \<in> set (fulfilled s0)" using en(2) wf_numbering [OF wf0 k(1)] Suc by simp
      then have "returned (phase (detect_calls s0 ! k'))"
        using wf_fulfilled [OF wf0] by auto
      then have "started (phase (detect_calls s0 ! k'))"
        by (cases "phase (detect_calls s0 ! k')") simp_all
      then have "k' < ?m" using ih k(1) Suc by auto
      then show ?thesis using Suc by simp
    qed
    ultimately have km: "k = ?m" by simp
    have "entries (js @ [j]) = [0..<Suc ?m]"
      using ih Continue km by (simp add: entries_append)
    moreover have "\<forall>i < length (detect_calls s).
          started (phase (detect_calls s ! i)) \<longleftrightarrow> i < Suc ?m"
      using ih k km unfolding s by (auto simp: set_phase_simps set_phase_nth less_Suc_eq)
    ultimately show ?thesis
      using wfs k km unfolding s by (simp add: set_phase_simps entries_append)
  next
    case (DetectionSettles k result)
    then have en: "phase_of s0 k = Some InDetection"
      and s: "s = set_phase k (case result of Fulfilled \<Rightarrow> InRecognition
                                            | Rejected \<Rightarrow> Leaving Rejected) s0"
      using st by (auto split: if_splits)
    show ?thesis
    proof (rule settle)
      show "entries [j] = []" using DetectionSettles by simp
      show "length (detect_calls s) = length (detect_calls s0)"
        unfolding s by (simp add: set_phase_simps)
      show "\<forall>k < length (detect_calls s0). started (phase (detect_calls s ! k))
           = started (phase (detect_calls s0 ! k))"
        unfolding s using en
        by (auto simp: set_phase_nth phase_of_Some split: outcome.splits)
    qed
  next
    case (RecognitionSettles k result)
    then have en: "phase_of s0 k = Some InRecognition"
      and s: "s = set_phase k (Leaving result) s0"
      using st by (auto split: if_splits)
    show ?thesis
    proof (rule settle)
      show "entries [j] = []" using RecognitionSettles by simp
      show "length (detect_calls s) = length (detect_calls s0)"
        unfolding s by (simp add: set_phase_simps)
      show "\<forall>k < length (detect_calls s0). started (phase (detect_calls s ! k))
           = started (phase (detect_calls s0 ! k))"
        unfolding s using en
        by (auto simp: set_phase_nth phase_of_Some)
    qed
  next
    case (Finally k)
    then obtain result where en: "phase_of s0 k = Some (Leaving result)"
      and s: "s = set_phase k (Returned result)
                  (s0\<lparr>fulfilled := releaseMutex (detect_calls s0 ! k) # fulfilled s0\<rparr>)"
      using st by (auto split: option.splits phase.splits)
    show ?thesis
    proof (rule settle)
      show "entries [j] = []" using Finally by simp
      show "length (detect_calls s) = length (detect_calls s0)"
        unfolding s by (simp add: set_phase_simps)
      show "\<forall>k < length (detect_calls s0). started (phase (detect_calls s ! k))
           = started (phase (detect_calls s0 ! k))"
        unfolding s using en
        by (auto simp: set_phase_nth phase_of_Some)
    qed
  qed
qed


lemma returned_final_phase: "returned (final_phase p)"
  by (cases p) simp_all

lemma finish_from_unfold:
  "i < length (detect_calls s) \<Longrightarrow>
   finish_from i s = finish_call i (phase (detect_calls s ! i)) @ finish_from (Suc i) s"
  by (simp add: finish_from_def upt_conv_Cons)

lemma finish_from_done: "length (detect_calls s) \<le> i \<Longrightarrow> finish_from i s = []"
  by (simp add: finish_from_def)

lemma finish_from_cong:
  assumes "length (detect_calls s') = length (detect_calls s)"
    "\<forall>k < length (detect_calls s). i \<le> k \<longrightarrow> phase (detect_calls s' ! k) = phase (detect_calls s ! k)"
  shows "finish_from i s' = finish_from i s"
  using assms by (auto simp: finish_from_def intro!: arg_cong [where f = concat])

lemma awaited_promise_fulfilled:
  assumes "well_formed s" "i < length (detect_calls s)"
    "\<forall>k<i. returned (phase (detect_calls s ! k))"
  shows "currentMutex (detect_calls s ! i) \<in> set (fulfilled s)"
proof (cases i)
  case 0
  then show ?thesis using wf_numbering [OF assms(1,2)] wf_fulfilled [OF assms(1)] by simp
next
  case (Suc i')
  then have "returned (phase (detect_calls s ! i'))" "i' < length (detect_calls s)"
    using assms(2,3) by simp_all
  then have "Suc i' \<in> set (fulfilled s)" using wf_fulfilled [OF assms(1)] by auto
  then show ?thesis using wf_numbering [OF assms(1,2)] Suc by simp
qed

lemma run_finish_call:
  assumes "well_formed s" "i < length (detect_calls s)"
    "\<forall>k<i. returned (phase (detect_calls s ! k))"
  shows "\<exists>s'. run (finish_call i (phase (detect_calls s ! i))) s = Some s'
           \<and> length (detect_calls s') = length (detect_calls s)
           \<and> (\<forall>k < length (detect_calls s).
                 phase (detect_calls s' ! k)
                   = (if k = i then final_phase (phase (detect_calls s ! i))
                      else phase (detect_calls s ! k)))"
proof -
  note aw = awaited_promise_fulfilled [OF assms]
  show ?thesis
  proof (cases "phase (detect_calls s ! i)")
    case AwaitingMutex
    then show ?thesis
      using assms(2) aw by (auto simp: phase_of_def set_phase_def nth_list_update)
  next
    case InDetection
    then show ?thesis
      using assms(2) by (auto simp: phase_of_def set_phase_def nth_list_update)
  next
    case InRecognition
    then show ?thesis
      using assms(2) by (auto simp: phase_of_def set_phase_def nth_list_update)
  next
    case (Leaving result)
    then show ?thesis
      using assms(2) by (auto simp: phase_of_def set_phase_def nth_list_update)
  next
    case (Returned result)
    then show ?thesis by simp
  qed
qed

lemma run_finish_from:
  assumes "well_formed s" "i \<le> length (detect_calls s)"
    "\<forall>k<i. returned (phase (detect_calls s ! k))"
  shows "\<exists>s'. run (finish_from i s) s = Some s'
           \<and> length (detect_calls s') = length (detect_calls s)
           \<and> (\<forall>k < length (detect_calls s).
                 phase (detect_calls s' ! k)
                   = (if k < i then phase (detect_calls s ! k)
                      else final_phase (phase (detect_calls s ! k))))"
  using assms
proof (induction "length (detect_calls s) - i" arbitrary: i s)
  case 0
  then show ?case by (simp add: finish_from_done)
next
  case (Suc n)
  then have i: "i < length (detect_calls s)" by simp
  obtain s1 where r1: "run (finish_call i (phase (detect_calls s ! i))) s = Some s1"
    and l1: "length (detect_calls s1) = length (detect_calls s)"
    and p1: "\<forall>k < length (detect_calls s).
                 phase (detect_calls s1 ! k)
                   = (if k = i then final_phase (phase (detect_calls s ! i))
                      else phase (detect_calls s ! k))"
    using run_finish_call [OF Suc.prems(1) i Suc.prems(3)] by blast
  have wf1: "well_formed s1" using wf_run [OF Suc.prems(1) r1] .
  have ret1: "\<forall>k<Suc i. returned (phase (detect_calls s1 ! k))"
    using p1 i Suc.prems(3) returned_final_phase by (auto simp: less_Suc_eq)
  have same: "finish_from (Suc i) s1 = finish_from (Suc i) s"
    using l1 p1 by (intro finish_from_cong) auto
  have "n = length (detect_calls s1) - Suc i" using Suc.hyps(2) l1 by simp
  then obtain s' where r2: "run (finish_from (Suc i) s1) s1 = Some s'"
    and l2: "length (detect_calls s') = length (detect_calls s1)"
    and p2: "\<forall>k < length (detect_calls s1).
                 phase (detect_calls s' ! k)
                   = (if k < Suc i then phase (detect_calls s1 ! k)
                      else final_phase (phase (detect_calls s1 ! k)))"
    using Suc.hyps(1) [of s1 "Suc i"] wf1 ret1 i l1 by auto
  have "run (finish_from i s) s = Some s'"
    using r1 r2 same by (simp add: finish_from_unfold [OF i] run_append)
  moreover have "\<forall>k < length (detect_calls s).
                 phase (detect_calls s' ! k)
                   = (if k < i then phase (detect_calls s ! k)
                      else final_phase (phase (detect_calls s ! k)))"
    using p1 p2 l1 by (auto simp: less_Suc_eq)
  ultimately show ?case using l1 l2 by auto
qed

text \<open>
  Claim C3: in every state that a session can reach, whatever the callers and the stages
  do, at most one call is executing the body of \<open>#detectInternal\<close>; a call has entered the
  body only if every call scheduled before it has returned; the calls enter the body in
  the order in which they were scheduled, \<open>0, 1, 2, ...\<close>; and a call returns only after it
  has entered the body (no call is dropped, cancelled or timed out while it waits).
\<close>

theorem C3_one_body_at_a_time:
  assumes "run jobs new_Ocr = Some s"
  shows "(\<forall>i j. i < length (detect_calls s) \<and> j < length (detect_calls s)
            \<and> executing (phase (detect_calls s ! i)) \<and> executing (phase (detect_calls s ! j))
            \<longrightarrow> i = j)
    \<and> (\<forall>i j. i < j \<and> j < length (detect_calls s) \<and> started (phase (detect_calls s ! j))
            \<longrightarrow> returned (phase (detect_calls s ! i)))
    \<and> entries jobs = [0..<length (entries jobs)]
    \<and> (\<forall>k < length (detect_calls s). returned (phase (detect_calls s ! k))
            \<longrightarrow> k < length (entries jobs))"
proof -
  note inv = entries_in_order [OF assms]
  have wf: "well_formed s" using inv by simp
  have one: "\<forall>i j. i < length (detect_calls s) \<and> j < length (detect_calls s)
            \<and> executing (phase (detect_calls s ! i)) \<and> executing (phase (detect_calls s ! j))
            \<longrightarrow> i = j"
    using at_most_one_executing [OF wf] by blast
  have fifo: "\<forall>i j. i < j \<and> j < length (detect_calls s) \<and> started (phase (detect_calls s ! j))
            \<longrightarrow> returned (phase (detect_calls s ! i))"
    using earlier_returned [OF wf] by blast
  have "started p" if "returned p" for p using that by (cases p) simp_all
  then have entered: "\<forall>k < length (detect_calls s). returned (phase (detect_calls s ! k))
            \<longrightarrow> k < length (entries jobs)"
    using inv by blast
  show ?thesis using one fifo inv entered by blast
qed

text \<open>
  The theorem of claim C3 on the scenario of two queued calls: they enter the body in the
  order 0, 1, and the second cannot enter while the first is in the body.
\<close>

theorem C3_one_body_at_a_time_witness:
  "run failing_then_valid new_Ocr \<noteq> None
   \<and> entries failing_then_valid = [0..<2]
   \<and> run [Detect, Detect, Continue 0, Continue 1] new_Ocr = None"
proof -
  have r: "run failing_then_valid new_Ocr \<noteq> None" by code_simp
  then obtain s where s: "run failing_then_valid new_Ocr = Some s" by blast
  have "length (entries failing_then_valid) = 2" by (simp add: failing_then_valid_def)
  then have "entries failing_then_valid = [0..<2]"
    using C3_one_body_at_a_time [OF s] by simp
  moreover have "run [Detect, Detect, Continue 0, Continue 1] new_Ocr = None" by code_simp
  ultimately show ?thesis using r by blast
qed

text \<open>
  Claim C4: when the body of a call has failed, its \<open>finally\<close> block can always run and
  fulfils the promise that the next call awaits; once it has run, the next queued call is
  free to enter the body; and from every state a session can reach, whichever calls have
  failed, there is a run in which every call that had not yet settled enters the body and
  succeeds, while the calls that had settled keep their outcome.
\<close>

theorem C4_failure_does_not_block:
  assumes "run jobs new_Ocr = Some s"
  shows "(\<forall>k. phase_of s k = Some (Leaving Rejected) \<longrightarrow>
            (\<exists>s'. step (Finally k) s = Some s'
                \<and> phase_of s' k = Some (Returned Rejected)
                \<and> releaseMutex (detect_calls s ! k) \<in> set (fulfilled s')))
    \<and> (\<forall>k. phase_of s k = Some (Returned Rejected) \<longrightarrow>
            releaseMutex (detect_calls s ! k) \<in> set (fulfilled s)
            \<and> (phase_of s (Suc k) = Some AwaitingMutex \<longrightarrow>
                 step (Continue (Suc k)) s = Some (set_phase (Suc k) InDetection s)))
    \<and> (\<exists>s'. run (finish_from 0 s) s = Some s'
            \<and> length (detect_calls s') = length (detect_calls s)
            \<and> (\<forall>k < length (detect_calls s).
                  phase (detect_calls s' ! k) = final_phase (phase (detect_calls s ! k))))"
proof (intro conjI allI impI)
  have wf: "well_formed s" using entries_in_order [OF assms] by simp
  {
    fix k
    assume l: "phase_of s k = Some (Leaving Rejected)"
    then have kl: "k < length (detect_calls s)" by (simp add: phase_of_Some)
    have st: "step (Finally k) s = Some (set_phase k (Returned Rejected)
                  (s\<lparr>fulfilled := releaseMutex (detect_calls s ! k) # fulfilled s\<rparr>))"
      using l by simp
    have "phase_of (set_phase k (Returned Rejected)
                  (s\<lparr>fulfilled := releaseMutex (detect_calls s ! k) # fulfilled s\<rparr>)) k
            = Some (Returned Rejected)"
      using kl by (simp add: phase_of_set_phase)
    then show "\<exists>s'. step (Finally k) s = Some s'
                \<and> phase_of s' k = Some (Returned Rejected)
                \<and> releaseMutex (detect_calls s ! k) \<in> set (fulfilled s')"
      using st by (simp add: set_phase_simps)
  next
    fix k
    assume k: "phase_of s k = Some (Returned Rejected)"
    then have kl: "k < length (detect_calls s)" "returned (phase (detect_calls s ! k))"
      by (auto simp: phase_of_Some)
    then show rel: "releaseMutex (detect_calls s ! k) \<in> set (fulfilled s)"
      using wf_numbering [OF wf kl(1)] wf_fulfilled [OF wf] by auto
    assume n: "phase_of s (Suc k) = Some AwaitingMutex"
    then have "Suc k < length (detect_calls s)" by (simp add: phase_of_Some)
    then have "currentMutex (detect_calls s ! Suc k) = releaseMutex (detect_calls s ! k)"
      using wf_numbering [OF wf] kl(1) by simp
    then show "step (Continue (Suc k)) s = Some (set_phase (Suc k) InDetection s)"
      using n rel by simp
  next
    show "\<exists>s'. run (finish_from 0 s) s = Some s'
            \<and> length (detect_calls s') = length (detect_calls s)
            \<and> (\<forall>k < length (detect_calls s).
                  phase (detect_calls s' ! k) = final_phase (phase (detect_calls s ! k)))"
      using run_finish_from [OF wf, of 0] by simp
  }
qed

text \<open>
  The theorem of claim C4 on the scenario of the specification: the first of two queued
  calls fails in its detection stage; its \<open>finally\<close> block releases the mutex, and the
  second call then runs and succeeds.
\<close>

theorem C4_failure_does_not_block_witness:
  "(\<exists>s s'. run [Detect, Detect, Continue 0, DetectionSettles 0 Rejected] new_Ocr = Some s
        \<and> phase_of s 0 = Some (Leaving Rejected)
        \<and> step (Finally 0) s = Some s'
        \<and> phase_of s' 0 = Some (Returned Rejected)
        \<and> releaseMutex (detect_calls s ! 0) \<in> set (fulfilled s'))
   \<and> map_option (map phase \<circ> detect_calls) (run failing_then_valid new_Ocr)
       = Some [Returned Rejected, Returned Fulfilled]"
proof -
  have "run [Detect, Detect, Continue 0, DetectionSettles 0 Rejected] new_Ocr \<noteq> None"
    by code_simp
  then obtain s where
    s: "run [Detect, Detect, Continue 0, DetectionSettles 0 Rejected] new_Ocr = Some s"
    by blast
  have p: "phase_of s 0 = Some (Leaving Rejected)"
    using s by (auto simp: new_Ocr_def phase_of_def set_phase_def split: if_splits)
  obtain s' where "step (Finally 0) s = Some s'" "phase_of s' 0 = Some (Returned Rejected)"
    "releaseMutex (detect_calls s ! 0) \<in> set (fulfilled s')"
    using C4_failure_does_not_block [OF s] p by blast
  moreover have "map_option (map phase \<circ> detect_calls) (run failing_then_valid new_Ocr)
       = Some [Returned Rejected, Returned Fulfilled]"
    by code_simp
  ultimately show ?thesis using s p by blast
qed


end
